theory Spec2Isabelle
  imports Main "HOL-Library.Multiset"
begin

section \<open>Bytes, strings and three-way comparison\<close>

text \<open>
  A Go \<open>string\<close> and a Go \<open>[]byte\<close> are sequences of bytes; a byte is a \<^typ>\<open>char\<close>,
  compared by its numeric value. \<open>cmp.Compare\<close> returns -1, 0 or +1.
\<close>

type_synonym byte = char

definition byte_val :: "byte \<Rightarrow> nat" where
  "byte_val c = of_char c"

definition cmp_Compare :: "'a::linorder \<Rightarrow> 'a \<Rightarrow> int" where
  "cmp_Compare x y = (if x < y then - 1 else if y < x then 1 else 0)"

text \<open>\<open>cmp.Compare\<close> on two strings: bytewise lexicographic order.\<close>

fun cmp_Compare_string :: "string \<Rightarrow> string \<Rightarrow> int" where
  "cmp_Compare_string [] [] = 0"
| "cmp_Compare_string [] (y # ys) = - 1"
| "cmp_Compare_string (x # xs) [] = 1"
| "cmp_Compare_string (x # xs) (y # ys) =
     (if byte_val x < byte_val y then - 1
      else if byte_val y < byte_val x then 1
      else cmp_Compare_string xs ys)"

definition newline :: "byte list" where
  "newline = [CHR 0x0A]"

definition mainMethod :: string where
  "mainMethod = ''main''"

definition isDigit :: "byte \<Rightarrow> bool" where
  "isDigit b = (byte_val (CHR ''0'') \<le> byte_val b \<and> byte_val b \<le> byte_val (CHR ''9''))"

text \<open>\<open>strings.TrimLeft(s, cutset)\<close>: drop the leading bytes that occur in the cutset.\<close>

definition strings_TrimLeft :: "string \<Rightarrow> string \<Rightarrow> string" where
  "strings_TrimLeft s cutset = dropWhile (\<lambda>c. c \<in> set cutset) s"

text \<open>The string slice \<open>s[i:j]\<close>, for \<open>i \<le> j \<le> len(s)\<close>.\<close>

definition string_slice :: "string \<Rightarrow> nat \<Rightarrow> nat \<Rightarrow> string" where
  "string_slice s i j = take (j - i) (drop i s)"

section \<open>Numeric-aware string comparison\<close>

text \<open>The loop of \<open>parseNumber\<close>: advance \<open>j\<close> over digits.\<close>

function parseNumber_loop :: "string \<Rightarrow> nat \<Rightarrow> nat" where
  "parseNumber_loop s j =
     (if j < length s \<and> isDigit (s ! j) then parseNumber_loop s (j + 1) else j)"
  by pat_completeness auto
termination
  by (relation "measure (\<lambda>(s, j). length s - j)") auto

definition parseNumber :: "string \<Rightarrow> nat \<Rightarrow> string \<times> nat" where
  "parseNumber s i =
     (let j = parseNumber_loop s (i + 1)
      in (strings_TrimLeft (string_slice s i j) ''0'', j))"

lemma parseNumber_loop_ge: "j \<le> parseNumber_loop s j"
proof (induction s j rule: parseNumber_loop.induct)
  case (1 s j)
  show ?case
  proof (cases "j < length s \<and> isDigit (s ! j)")
    case True
    with "1.IH" have "j + 1 \<le> parseNumber_loop s (j + 1)" by simp
    moreover from True have "parseNumber_loop s j = parseNumber_loop s (j + 1)"
      by (subst parseNumber_loop.simps) simp
    ultimately show ?thesis by simp
  next
    case False
    then have "parseNumber_loop s j = j"
      by (subst parseNumber_loop.simps) auto
    then show ?thesis by simp
  qed
qed

lemma parseNumber_snd_gt: "i < snd (parseNumber s i)"
  using parseNumber_loop_ge [of "i + 1" s] by (simp add: parseNumber_def Let_def)

text \<open>
  The loop of \<open>compareStringsWithWholeNumbers\<close>, with its two cursors \<open>i\<close> and \<open>j\<close>;
  the part after the loop is the last line.
\<close>

function cswwn_loop :: "string \<Rightarrow> string \<Rightarrow> nat \<Rightarrow> nat \<Rightarrow> int" where
  "cswwn_loop a b i j =
     (if i < length a \<and> j < length b then
        (if a ! i \<noteq> b ! j then cmp_Compare (byte_val (a ! i)) (byte_val (b ! j))
         else if \<not> isDigit (a ! i) then cswwn_loop a b (i + 1) (j + 1)
         else
           (let pa = parseNumber a i; pb = parseNumber b j in
            if fst pa \<noteq> fst pb then
              (if length (fst pa) \<noteq> length (fst pb)
               then cmp_Compare (length (fst pa)) (length (fst pb))
               else cmp_Compare_string (fst pa) (fst pb))
            else cswwn_loop a b (snd pa) (snd pb)))
      else if i < length a then 1
      else if j < length b then - 1
      else 0)"
  by pat_completeness auto
termination
proof (relation "measure (\<lambda>(a, b, i, j). length a - i)")
  show "wf (measure (\<lambda>(a, b, i, j). length a - i))" by simp
next
  fix a b :: string and i j :: nat
  assume "i < length a \<and> j < length b"
  then show "((a, b, i + 1, j + 1), a, b, i, j) \<in> measure (\<lambda>(a, b, i, j). length a - i)"
    by auto
next
  fix a b :: string and i j :: nat and x xa
  assume "i < length a \<and> j < length b" and "x = parseNumber a i"
  then show "((a, b, snd x, snd xa), a, b, i, j) \<in> measure (\<lambda>(a, b, i, j). length a - i)"
    using parseNumber_snd_gt [of i a] by auto
qed

definition compareStringsWithWholeNumbers :: "string \<Rightarrow> string \<Rightarrow> int" where
  "compareStringsWithWholeNumbers a b = cswwn_loop a b 0 0"

definition compareFuncNames :: "string \<Rightarrow> string \<Rightarrow> int" where
  "compareFuncNames a b =
     (if a = mainMethod then - 1
      else if b = mainMethod then 1
      else compareStringsWithWholeNumbers a b)"

section \<open>The parsed file and the declaration record\<close>

text \<open>
  The syntax tree comes from the external parser \<open>go/parser\<close>. Only the parts that the
  formatter reads are kept: positions (1-based byte offsets, \<open>token.Pos\<close>, a Go \<open>int\<close>),
  the token of a general declaration, the name of a function, the receiver list and the
  specs. \<open>token.NoPos\<close> is 0.

  The token constants \<open>IMPORT\<close>, \<open>CONST\<close>, \<open>VAR\<close>, \<open>TYPE\<close>, \<open>FUNC\<close> and \<open>METHOD\<close>
  carry the prefix \<open>Tok_\<close> here, and \<open>Tok_other\<close> stands for every other value of
  \<open>token.Token\<close>.
\<close>

datatype Token = Tok_IMPORT | Tok_CONST | Tok_VAR | Tok_TYPE | Tok_FUNC | Tok_METHOD | Tok_other

text \<open>
  A receiver type expression: the formatter looks through \<open>*ast.IndexExpr\<close>,
  \<open>*ast.IndexListExpr\<close> and \<open>*ast.StarExpr\<close> (field \<open>X\<close>) down to an \<open>*ast.Ident\<close>;
  every other expression shape is \<open>OtherExpr\<close>.
\<close>

datatype Expr = Ident string | IndexExpr Expr | IndexListExpr Expr | StarExpr Expr | OtherExpr

datatype Spec = ImportSpec | TypeSpec string | ValueSpec

record CommentGroup =
  cg_Pos :: int
  cg_End :: int

text \<open>
  \<open>ast.Decl\<close>: a \<open>*ast.FuncDecl\<close> (position, end, \<open>Name.Name\<close>, and \<open>Recv\<close>, which is nil
  or the list of the receiver fields' types), a \<open>*ast.GenDecl\<close> (position, end, \<open>Tok\<close>,
  \<open>Specs\<close>) or a \<open>*ast.BadDecl\<close>.
\<close>

datatype Decl =
    FuncDecl int int string "Expr list option"
  | GenDecl int int Token "Spec list"
  | BadDecl int int

fun Decl_Pos :: "Decl \<Rightarrow> int" where
  "Decl_Pos (FuncDecl p e n r) = p"
| "Decl_Pos (GenDecl p e t ss) = p"
| "Decl_Pos (BadDecl p e) = p"

fun Decl_End :: "Decl \<Rightarrow> int" where
  "Decl_End (FuncDecl p e n r) = e"
| "Decl_End (GenDecl p e t ss) = e"
| "Decl_End (BadDecl p e) = e"

record File =
  file_Name :: "string option"
  file_Package :: int
  file_Decls :: "Decl list"
  file_Comments :: "CommentGroup list"

datatype ast_Node = DeclNode Decl | CommentNode CommentGroup

fun Node_Pos :: "ast_Node \<Rightarrow> int" where
  "Node_Pos (DeclNode d) = Decl_Pos d"
| "Node_Pos (CommentNode c) = cg_Pos c"

fun Node_End :: "ast_Node \<Rightarrow> int" where
  "Node_End (DeclNode d) = Decl_End d"
| "Node_End (CommentNode c) = cg_End c"

text \<open>A node that spans from the start of one node to the end of another.\<close>

record rangeNode =
  rn_end :: ast_Node
  rn_start :: ast_Node

definition rangeNode_End :: "rangeNode \<Rightarrow> int" where
  "rangeNode_End rn = Node_End (rn_end rn)"

definition rangeNode_Pos :: "rangeNode \<Rightarrow> int" where
  "rangeNode_Pos rn = Node_Pos (rn_start rn)"

text \<open>
  The \<open>declaration\<close> struct, here \<open>declaration_rec\<close>. \<open>Name\<close> and \<open>Recv\<close> are pointers (\<open>None\<close> is nil); \<open>Text\<close> is
  a view into the source buffer, read before anything is written, so it is kept as the
  bytes it holds. The fields \<open>Body\<close>, \<open>Doc\<close>, \<open>Lparen\<close>, \<open>Rparen\<close>, \<open>TokPos\<close> and
  \<open>Type\<close> are stored and never read, and are left out.
\<close>

record declaration_rec =
  Node :: rangeNode
  Name :: "string option"
  OriginalOrder :: nat
  Recv :: "Expr list option"
  Specs :: "Spec list"
  Text :: "byte list"
  Tok :: Token

datatype panic =
    UnsupportedToken
  | UnsupportedReceiverType
  | UnsupportedDecl
  | IndexOutOfRange
  | NilDereference
  | TypeAssertionFailed
  | SliceBoundsOutOfRange

text \<open>\<open>declOrder\<close> is a Go map; reading a missing key gives the zero value.\<close>

definition declOrder :: "Token \<rightharpoonup> int" where
  "declOrder = [Tok_IMPORT \<mapsto> 0, Tok_CONST \<mapsto> 1, Tok_VAR \<mapsto> 2, Tok_TYPE \<mapsto> 3, Tok_FUNC \<mapsto> 4]"

definition map_index :: "('k \<rightharpoonup> int) \<Rightarrow> 'k \<Rightarrow> int" where
  "map_index m k = (case m k of None \<Rightarrow> 0 | Some v \<Rightarrow> v)"

definition getFunctionName :: "declaration_rec \<Rightarrow> panic + string" where
  "getFunctionName decl =
     (if Tok decl \<noteq> Tok_FUNC \<and> Tok decl \<noteq> Tok_METHOD then Inr []
      else case Name decl of None \<Rightarrow> Inl NilDereference | Some n \<Rightarrow> Inr n)"

fun receiver_rec :: "Expr \<Rightarrow> panic + string" where
  "receiver_rec (Ident n) = Inr n"
| "receiver_rec (IndexExpr x) = receiver_rec x"
| "receiver_rec (IndexListExpr x) = receiver_rec x"
| "receiver_rec (StarExpr x) = receiver_rec x"
| "receiver_rec OtherExpr = Inl UnsupportedReceiverType"

definition getReceiverTypeName :: "declaration_rec \<Rightarrow> panic + string" where
  "getReceiverTypeName decl =
     (if Tok decl \<noteq> Tok_METHOD then Inr []
      else case Recv decl of
             None \<Rightarrow> Inl NilDereference
           | Some [] \<Rightarrow> Inl IndexOutOfRange
           | Some (t # ts) \<Rightarrow> receiver_rec t)"

definition getTypeName :: "declaration_rec \<Rightarrow> panic + string" where
  "getTypeName decl =
     (if Tok decl \<noteq> Tok_TYPE then Inr []
      else case Specs decl of
             [] \<Rightarrow> Inl IndexOutOfRange
           | TypeSpec n # ss \<Rightarrow> Inr n
           | _ # ss \<Rightarrow> Inl TypeAssertionFailed)"

section \<open>The comparator\<close>

definition compareMethodToDecl :: "declaration_rec \<Rightarrow> declaration_rec \<Rightarrow> panic + int" where
  "compareMethodToDecl decl other =
     (case getReceiverTypeName decl of
        Inl p \<Rightarrow> Inl p
      | Inr receiverName \<Rightarrow>
          (case Tok other of
             Tok_IMPORT \<Rightarrow> Inr 1
           | Tok_CONST \<Rightarrow> Inr 1
           | Tok_VAR \<Rightarrow> Inr 1
           | Tok_TYPE \<Rightarrow>
               (case getTypeName other of
                  Inl p \<Rightarrow> Inl p
                | Inr typeName \<Rightarrow>
                    if typeName = receiverName then Inr 1
                    else Inr (compareStringsWithWholeNumbers receiverName typeName))
           | Tok_METHOD \<Rightarrow>
               (case getReceiverTypeName other of
                  Inl p \<Rightarrow> Inl p
                | Inr otherName \<Rightarrow>
                    (let c = compareStringsWithWholeNumbers receiverName otherName in
                     if c = 0 then
                       (case getFunctionName decl of
                          Inl p \<Rightarrow> Inl p
                        | Inr f \<Rightarrow>
                            (case getFunctionName other of
                               Inl p \<Rightarrow> Inl p
                             | Inr g \<Rightarrow> Inr (compareStringsWithWholeNumbers f g)))
                     else Inr c))
           | Tok_FUNC \<Rightarrow> Inr (- 1)
           | Tok_other \<Rightarrow> Inl UnsupportedToken))"

text \<open>The function literal that \<open>Format\<close> hands to \<open>slices.SortFunc\<close>.\<close>

definition Format_cmp :: "declaration_rec \<Rightarrow> declaration_rec \<Rightarrow> panic + int" where
  "Format_cmp a b =
     (if Tok a = Tok_METHOD then compareMethodToDecl a b
      else if Tok b = Tok_METHOD then
        (case compareMethodToDecl b a of Inl p \<Rightarrow> Inl p | Inr c \<Rightarrow> Inr (- c))
      else if Tok a \<noteq> Tok b then
        Inr (cmp_Compare (map_index declOrder (Tok a)) (map_index declOrder (Tok b)))
      else
        (case Tok a of
           Tok_IMPORT \<Rightarrow> Inr (cmp_Compare (OriginalOrder a) (OriginalOrder b))
         | Tok_CONST \<Rightarrow> Inr (cmp_Compare (OriginalOrder a) (OriginalOrder b))
         | Tok_VAR \<Rightarrow> Inr (cmp_Compare (OriginalOrder a) (OriginalOrder b))
         | Tok_TYPE \<Rightarrow>
             (case getTypeName a of
                Inl p \<Rightarrow> Inl p
              | Inr s \<Rightarrow>
                  (case getTypeName b of
                     Inl p \<Rightarrow> Inl p
                   | Inr t \<Rightarrow> Inr (compareStringsWithWholeNumbers s t)))
         | Tok_FUNC \<Rightarrow>
             (case getFunctionName a of
                Inl p \<Rightarrow> Inl p
              | Inr s \<Rightarrow>
                  (case getFunctionName b of
                     Inl p \<Rightarrow> Inl p
                   | Inr t \<Rightarrow> Inr (compareFuncNames s t)))
         | _ \<Rightarrow> Inl UnsupportedToken))"

section \<open>Byte slices\<close>

text \<open>
  A Go \<open>[]byte\<close> is a window on a backing array: \<open>backing\<close> holds the array from the
  slice's first byte to the end of its capacity, \<open>slice_len\<close> is \<open>len\<close>, and \<open>cap\<close> is
  the length of \<open>backing\<close>. The bytes of the slice are the first \<open>slice_len\<close> ones.
\<close>

record go_slice =
  backing :: "byte list"
  slice_len :: nat

definition slice_bytes :: "go_slice \<Rightarrow> byte list" where
  "slice_bytes s = take (slice_len s) (backing s)"

text \<open>
  The slice expression \<open>s[lo:hi]\<close> on a \<open>[]byte\<close>: it panics unless
  \<open>0 \<le> lo \<le> hi \<le> cap(s)\<close>, and otherwise is the view of those bytes of the backing
  array. \<open>s[lo:]\<close> is \<open>s[lo:len(s)]\<close>.
\<close>

definition slice_expr :: "go_slice \<Rightarrow> int \<Rightarrow> int \<Rightarrow> panic + byte list" where
  "slice_expr s lo hi =
     (if 0 \<le> lo \<and> lo \<le> hi \<and> hi \<le> int (length (backing s))
      then Inr (take (nat hi - nat lo) (drop (nat lo) (backing s)))
      else Inl SliceBoundsOutOfRange)"

text \<open>
  \<open>append(s, xs...)\<close> where \<open>s\<close> is the first \<open>n\<close> bytes of the backing array \<open>arr\<close>: when
  the capacity suffices the new bytes are written into the backing array itself and the
  result shares it; otherwise a new array is allocated and the old one is left as it was.
\<close>

datatype appended = InPlace "byte list" | Reallocated "byte list"

definition go_append :: "byte list \<Rightarrow> nat \<Rightarrow> byte list \<Rightarrow> appended" where
  "go_append arr n xs =
     (if n + length xs \<le> length arr
      then InPlace (take n arr @ xs @ drop (n + length xs) arr)
      else Reallocated (take n arr @ xs))"

text \<open>\<open>bytes.Index(s, sep)\<close>: the index of the first occurrence of \<open>sep\<close> in \<open>s\<close>, or -1.\<close>

fun bytes_Index_from :: "byte list \<Rightarrow> byte list \<Rightarrow> int \<Rightarrow> int" where
  "bytes_Index_from [] sep n = (if sep = [] then n else - 1)"
| "bytes_Index_from (x # xs) sep n =
     (if take (length sep) (x # xs) = sep then n else bytes_Index_from xs sep (n + 1))"

definition bytes_Index :: "byte list \<Rightarrow> byte list \<Rightarrow> int" where
  "bytes_Index s sep = bytes_Index_from s sep 0"

text \<open>\<open>bytes.Join(s, sep)\<close>: a new buffer holding the elements of \<open>s\<close> with \<open>sep\<close> between them.\<close>

fun bytes_Join :: "byte list list \<Rightarrow> byte list \<Rightarrow> byte list" where
  "bytes_Join [] sep = []"
| "bytes_Join [x] sep = x"
| "bytes_Join (x # y # ys) sep = x @ sep @ bytes_Join (y # ys) sep"

section \<open>Extracting the declarations\<close>

definition NoPos :: int where
  "NoPos = 0"

definition newlinePosAfterPackageDecl :: "File \<Rightarrow> go_slice \<Rightarrow> panic + int" where
  "newlinePosAfterPackageDecl file src =
     (case file_Name file of
        None \<Rightarrow> Inr NoPos
      | Some n \<Rightarrow>
          (case slice_expr src (file_Package file - 1) (int (slice_len src)) of
             Inl p \<Rightarrow> Inl p
           | Inr rest \<Rightarrow>
               (let indexOfNewlineAfterPackage = bytes_Index rest newline in
                if indexOfNewlineAfterPackage = - 1 then Inr NoPos
                else Inr (indexOfNewlineAfterPackage + file_Package file))))"

definition getDecl :: "go_slice \<Rightarrow> Decl \<Rightarrow> rangeNode \<Rightarrow> nat \<Rightarrow> panic + declaration_rec" where
  "getDecl src decl node order' =
     (case decl of
        FuncDecl p e n r \<Rightarrow>
          (case slice_expr src (rangeNode_Pos node - 1) (rangeNode_End node) of
             Inl pn \<Rightarrow> Inl pn
           | Inr txt \<Rightarrow>
               Inr \<lparr>Node = node, Name = Some n, OriginalOrder = order', Recv = r, Specs = [],
                    Text = txt, Tok = (if r = None then Tok_FUNC else Tok_METHOD)\<rparr>)
      | GenDecl p e t ss \<Rightarrow>
          (case slice_expr src (rangeNode_Pos node - 1) (rangeNode_End node) of
             Inl pn \<Rightarrow> Inl pn
           | Inr txt \<Rightarrow>
               Inr \<lparr>Node = node, Name = None, OriginalOrder = order', Recv = None, Specs = ss,
                    Text = txt, Tok = t\<rparr>)
      | BadDecl p e \<Rightarrow> Inl UnsupportedDecl)"

text \<open>
  The loop of \<open>getDecls\<close> over the declarations. The cursor \<open>j\<close> into \<open>file.Comments\<close>
  only moves forward, so it is kept as the comments from \<open>j\<close> on; \<open>i\<close> is the index of
  the declaration.
\<close>

fun getDecls_loop ::
  "go_slice \<Rightarrow> Decl list \<Rightarrow> CommentGroup list \<Rightarrow> int \<Rightarrow> nat \<Rightarrow> panic + declaration_rec list" where
  "getDecls_loop src [] cs leftBound i = Inr []"
| "getDecls_loop src (d # ds) cs leftBound i =
     (let cs' = dropWhile (\<lambda>c. cg_Pos c < leftBound) cs;
          node = \<lparr>rn_end = DeclNode d,
                  rn_start = (case cs' of
                                [] \<Rightarrow> DeclNode d
                              | c # rest \<Rightarrow> if cg_Pos c < Decl_Pos d then CommentNode c
                                           else DeclNode d)\<rparr>
      in case getDecl src d node i of
           Inl p \<Rightarrow> Inl p
         | Inr r \<Rightarrow>
             (case getDecls_loop src ds cs' (Decl_End d) (i + 1) of
                Inl p \<Rightarrow> Inl p
              | Inr rs \<Rightarrow> Inr (r # rs)))"

definition getDecls :: "File \<Rightarrow> go_slice \<Rightarrow> panic + declaration_rec list" where
  "getDecls file src =
     (case newlinePosAfterPackageDecl file src of
        Inl p \<Rightarrow> Inl p
      | Inr lb \<Rightarrow>
          getDecls_loop src (file_Decls file) (file_Comments file)
            (if lb = NoPos then 1 else lb) 0)"

section \<open>Format\<close>

text \<open>
  \<open>Format\<close> calls two library functions, which are parameters here: the parser
  \<open>parser.ParseFile\<close>, from the file name and the bytes of the source to an error or a
  syntax tree, and \<open>slices.SortFunc\<close>, from a comparator and a sequence to the sorted
  sequence (or the panic of a comparison).

  The result holds the bytes of the returned slice, whether the returned slice shares the
  backing array of the source, and the backing array of the source after the call.
\<close>

datatype failure = ParseError string | Panic panic

record Format_result =
  out_bytes :: "byte list"
  out_shares_src :: bool
  src_after :: "byte list"

type_synonym parser = "string \<Rightarrow> byte list \<Rightarrow> string + File"

type_synonym sorter =
  "(declaration_rec \<Rightarrow> declaration_rec \<Rightarrow> panic + int) \<Rightarrow> declaration_rec list
     \<Rightarrow> panic + declaration_rec list"

definition Format :: "parser \<Rightarrow> sorter \<Rightarrow> string \<Rightarrow> go_slice \<Rightarrow> failure + Format_result" where
  "Format parseFile sortFunc filename src =
     (case parseFile filename (slice_bytes src) of
        Inl err \<Rightarrow> Inl (ParseError err)
      | Inr file \<Rightarrow>
          if length (file_Decls file) = 0 then
            Inr \<lparr>out_bytes = slice_bytes src, out_shares_src = False, src_after = backing src\<rparr>
          else
            (case getDecls file src of
               Inl p \<Rightarrow> Inl (Panic p)
             | Inr [] \<Rightarrow> Inl (Panic IndexOutOfRange)
             | Inr (d # ds) \<Rightarrow>
                 (let decls = d # ds;
                      firstDeclStart = rangeNode_Pos (Node (decls ! 0));
                      lastDeclEnd = rangeNode_End (Node (decls ! (length decls - 1)))
                  in case sortFunc Format_cmp decls of
                       Inl p \<Rightarrow> Inl (Panic p)
                     | Inr sortedDecls \<Rightarrow>
                         (let rewritten = bytes_Join (map Text sortedDecls) newline
                          in case slice_expr src 0 (firstDeclStart - 1) of
                               Inl p \<Rightarrow> Inl (Panic p)
                             | Inr front \<Rightarrow>
                                 (case go_append (backing src) (length front) rewritten of
                                    Reallocated fresh \<Rightarrow>
                                      (case slice_expr src lastDeclEnd (int (slice_len src)) of
                                         Inl p \<Rightarrow> Inl (Panic p)
                                       | Inr rest \<Rightarrow>
                                           Inr \<lparr>out_bytes = fresh @ rest,
                                                out_shares_src = False,
                                                src_after = backing src\<rparr>)
                                  | InPlace arr1 \<Rightarrow>
                                      (case slice_expr (src\<lparr>backing := arr1\<rparr>) lastDeclEnd
                                              (int (slice_len src)) of
                                         Inl p \<Rightarrow> Inl (Panic p)
                                       | Inr rest \<Rightarrow>
                                           (case go_append arr1 (length front + length rewritten)
                                                   rest of
                                              Reallocated fresh \<Rightarrow>
                                                Inr \<lparr>out_bytes = fresh,
                                                     out_shares_src = False,
                                                     src_after = arr1\<rparr>
                                            | InPlace arr2 \<Rightarrow>
                                                Inr \<lparr>out_bytes =
                                                       take (length front + length rewritten
                                                             + length rest) arr2,
                                                     out_shares_src = True,
                                                     src_after = arr2\<rparr>)))))))"

section \<open>Insertion sort\<close>

text \<open>
  An instance of the sort parameter: the insertion sort that \<open>slices.SortFunc\<close> runs on
  a slice of at most 12 elements. Each element in turn is swapped with its left
  neighbour as long as it compares below it. The part already sorted is kept reversed,
  the nearest neighbour first.
\<close>

fun insertionSort_inner ::
  "('a \<Rightarrow> 'a \<Rightarrow> panic + int) \<Rightarrow> 'a \<Rightarrow> 'a list \<Rightarrow> panic + 'a list" where
  "insertionSort_inner cmp x [] = Inr [x]"
| "insertionSort_inner cmp x (y # ys) =
     (case cmp x y of
        Inl p \<Rightarrow> Inl p
      | Inr c \<Rightarrow>
          if c < 0 then
            (case insertionSort_inner cmp x ys of Inl p \<Rightarrow> Inl p | Inr zs \<Rightarrow> Inr (y # zs))
          else Inr (x # y # ys))"

fun insertionSort_outer ::
  "('a \<Rightarrow> 'a \<Rightarrow> panic + int) \<Rightarrow> 'a list \<Rightarrow> 'a list \<Rightarrow> panic + 'a list" where
  "insertionSort_outer cmp acc [] = Inr (rev acc)"
| "insertionSort_outer cmp acc (x # xs) =
     (case insertionSort_inner cmp x acc of
        Inl p \<Rightarrow> Inl p
      | Inr acc' \<Rightarrow> insertionSort_outer cmp acc' xs)"

definition insertionSortCmpFunc :: "('a \<Rightarrow> 'a \<Rightarrow> panic + int) \<Rightarrow> 'a list \<Rightarrow> panic + 'a list" where
  "insertionSortCmpFunc cmp xs = insertionSort_outer cmp [] xs"

section \<open>Sorted output\<close>

text \<open>
  \<open>slices.SortFunc\<close> sorts in ascending order as determined by the comparator: its
  result is a rearrangement of its argument in which no element sorts strictly before an
  element to its left. \<open>not_before cmp a b\<close> says that \<open>b\<close> does not sort before \<open>a\<close>.
\<close>

definition not_before :: "('a \<Rightarrow> 'a \<Rightarrow> panic + int) \<Rightarrow> 'a \<Rightarrow> 'a \<Rightarrow> bool" where
  "not_before cmp a b = (case cmp b a of Inl p \<Rightarrow> False | Inr c \<Rightarrow> 0 \<le> c)"

definition is_type_named :: "declaration_rec \<Rightarrow> string \<Rightarrow> bool" where
  "is_type_named d R = (Tok d = Tok_TYPE \<and> getTypeName d = Inr R)"

definition is_method_of :: "declaration_rec \<Rightarrow> string \<Rightarrow> bool" where
  "is_method_of d R = (Tok d = Tok_METHOD \<and> getReceiverTypeName d = Inr R)"

text \<open>
  The name that places a declaration among the types: the receiver type of a method, the
  type name otherwise. \<open>names_distinguished\<close>: no two different such names of the
  sequence compare as equal.
\<close>

definition placement_name :: "declaration_rec \<Rightarrow> panic + string" where
  "placement_name d = (if Tok d = Tok_METHOD then getReceiverTypeName d else getTypeName d)"

definition names_distinguished :: "declaration_rec list \<Rightarrow> bool" where
  "names_distinguished ds =
     list_all (\<lambda>a. list_all (\<lambda>b.
        case (placement_name a, placement_name b) of
          (Inr r, Inr s) \<Rightarrow> compareStringsWithWholeNumbers r s = 0 \<longrightarrow> r = s
        | _ \<Rightarrow> True) ds) ds"

text \<open>The categories whose declarations keep their input order.\<close>

definition stable_token :: "Token \<Rightarrow> bool" where
  "stable_token t = (t = Tok_IMPORT \<or> t = Tok_CONST \<or> t = Tok_VAR)"

section \<open>Spans in the source\<close>

text \<open>The bytes of an array from offset \<open>lo\<close> up to offset \<open>hi\<close>, 0-based.\<close>

definition bytes_between :: "byte list \<Rightarrow> nat \<Rightarrow> nat \<Rightarrow> byte list" where
  "bytes_between arr lo hi = take (hi - lo) (drop lo arr)"

text \<open>
  The text of a declaration record runs from the 0-based offset \<open>Pos - 1\<close> up to the
  offset \<open>End\<close>, one byte past the end of the declaration. \<open>newline_separated\<close>: after the
  text of each record but the last comes one newline byte, and then the text of the next
  record.
\<close>

fun newline_separated :: "byte list \<Rightarrow> declaration_rec list \<Rightarrow> bool" where
  "newline_separated arr [] = True"
| "newline_separated arr [d] = True"
| "newline_separated arr (d # e # ds) =
     (bytes_between arr (nat (rangeNode_End (Node d))) (nat (rangeNode_End (Node d)) + 1) = newline
      \<and> rangeNode_Pos (Node e) - 1 = rangeNode_End (Node d) + 1
      \<and> newline_separated arr (e # ds))"

text \<open>
  The comment groups of a parsed file are in source order and do not overlap: each ends
  before the next begins, and none ends before it begins.
\<close>

definition comments_in_order :: "CommentGroup list \<Rightarrow> bool" where
  "comments_in_order cs =
     (sorted_wrt (\<lambda>a b. cg_End a \<le> cg_Pos b) cs \<and> list_all (\<lambda>c. cg_Pos c \<le> cg_End c) cs)"

section \<open>Example inputs\<close>

text \<open>A source buffer whose capacity is its length.\<close>

definition exact_slice :: "byte list \<Rightarrow> go_slice" where
  "exact_slice bs = \<lparr>backing = bs, slice_len = length bs\<rparr>"

text \<open>The records of a file, and a sequence after insertion sort; empty on a panic.\<close>

definition decls_of :: "File \<Rightarrow> byte list \<Rightarrow> declaration_rec list" where
  "decls_of file bs = (case getDecls file (exact_slice bs) of Inl p \<Rightarrow> [] | Inr ds \<Rightarrow> ds)"

definition sorted_of :: "declaration_rec list \<Rightarrow> declaration_rec list" where
  "sorted_of ds = (case insertionSortCmpFunc Format_cmp ds of Inl p \<Rightarrow> [] | Inr out \<Rightarrow> out)"

text \<open>Three types \<open>item2\<close>, \<open>item10\<close>, \<open>item9\<close>, a blank line between them.\<close>

definition src_items :: "byte list" where
  "src_items = ''package p'' @ newline @ newline @ ''type item2 int'' @ newline @ newline
     @ ''type item10 int'' @ newline @ newline @ ''type item9 int'' @ newline"

definition file_items :: File where
  "file_items = \<lparr>file_Name = Some ''p'', file_Package = 1,
     file_Decls = [GenDecl 12 26 Tok_TYPE [TypeSpec ''item2''],
                   GenDecl 28 43 Tok_TYPE [TypeSpec ''item10''],
                   GenDecl 45 59 Tok_TYPE [TypeSpec ''item9'']],
     file_Comments = []\<rparr>"

text \<open>Two functions \<open>main\<close>, as \<open>getDecl\<close> records them.\<close>

definition func_main_0 :: declaration_rec where
  "func_main_0 =
     \<lparr>Node = \<lparr>rn_end = DeclNode (FuncDecl 12 26 ''main'' None),
               rn_start = DeclNode (FuncDecl 12 26 ''main'' None)\<rparr>,
      Name = Some ''main'', OriginalOrder = 0, Recv = None, Specs = [],
      Text = ''func main() {}'' @ newline, Tok = Tok_FUNC\<rparr>"

definition func_main_1 :: declaration_rec where
  "func_main_1 =
     \<lparr>Node = \<lparr>rn_end = DeclNode (FuncDecl 28 42 ''main'' None),
               rn_start = DeclNode (FuncDecl 28 42 ''main'' None)\<rparr>,
      Name = Some ''main'', OriginalOrder = 1, Recv = None, Specs = [],
      Text = ''func main() {}'' @ newline, Tok = Tok_FUNC\<rparr>"

text \<open>The types \<open>x0\<close> and \<open>x00\<close> and a method of \<open>x0\<close>, in this order.\<close>

definition src_zeros :: "byte list" where
  "src_zeros = ''package p'' @ newline @ newline @ ''type x0 int'' @ newline @ newline
     @ ''type x00 int'' @ newline @ newline @ ''func (x0) f() {}'' @ newline"

definition file_zeros :: File where
  "file_zeros = \<lparr>file_Name = Some ''p'', file_Package = 1,
     file_Decls = [GenDecl 12 23 Tok_TYPE [TypeSpec ''x0''],
                   GenDecl 25 37 Tok_TYPE [TypeSpec ''x00''],
                   FuncDecl 39 55 ''f'' (Some [Ident ''x0''])],
     file_Comments = []\<rparr>"

definition type_x0 :: declaration_rec where
  "type_x0 =
     \<lparr>Node = \<lparr>rn_end = DeclNode (GenDecl 12 23 Tok_TYPE [TypeSpec ''x0'']),
               rn_start = DeclNode (GenDecl 12 23 Tok_TYPE [TypeSpec ''x0''])\<rparr>,
      Name = None, OriginalOrder = 0, Recv = None, Specs = [TypeSpec ''x0''],
      Text = ''type x0 int'' @ newline, Tok = Tok_TYPE\<rparr>"

definition type_x00 :: declaration_rec where
  "type_x00 =
     \<lparr>Node = \<lparr>rn_end = DeclNode (GenDecl 25 37 Tok_TYPE [TypeSpec ''x00'']),
               rn_start = DeclNode (GenDecl 25 37 Tok_TYPE [TypeSpec ''x00''])\<rparr>,
      Name = None, OriginalOrder = 1, Recv = None, Specs = [TypeSpec ''x00''],
      Text = ''type x00 int'' @ newline, Tok = Tok_TYPE\<rparr>"

definition method_x0_f :: declaration_rec where
  "method_x0_f =
     \<lparr>Node = \<lparr>rn_end = DeclNode (FuncDecl 39 55 ''f'' (Some [Ident ''x0''])),
               rn_start = DeclNode (FuncDecl 39 55 ''f'' (Some [Ident ''x0'']))\<rparr>,
      Name = Some ''f'', OriginalOrder = 2, Recv = Some [Ident ''x0''], Specs = [],
      Text = ''func (x0) f() {}'' @ newline, Tok = Tok_METHOD\<rparr>"

text \<open>Two functions out of order, a blank line between them.\<close>

definition src_swap :: "byte list" where
  "src_swap = ''package p'' @ newline @ newline @ ''func b() {}'' @ newline @ newline
     @ ''func a() {}'' @ newline"

definition file_swap :: File where
  "file_swap = \<lparr>file_Name = Some ''p'', file_Package = 1,
     file_Decls = [FuncDecl 12 23 ''b'' None, FuncDecl 25 36 ''a'' None],
     file_Comments = []\<rparr>"

text \<open>Two functions in order on consecutive lines, and a comment after the last one.\<close>

definition src_trailing :: "byte list" where
  "src_trailing = ''package p'' @ newline @ ''func a() {}'' @ newline @ ''func b() {}''
     @ newline @ ''// end'' @ newline"

definition file_trailing :: File where
  "file_trailing = \<lparr>file_Name = Some ''p'', file_Package = 1,
     file_Decls = [FuncDecl 11 22 ''a'' None, FuncDecl 23 34 ''b'' None],
     file_Comments = [\<lparr>cg_Pos = 35, cg_End = 41\<rparr>]\<rparr>"

text \<open>
  The parser on the two inputs used with this file: the tree above for the bytes above,
  and a syntax error for the bytes that \<open>Format\<close> makes of them, in which a line starts
  with a lone slash. (It answers every other input with the same error.)
\<close>

definition parse_trailing :: parser where
  "parse_trailing name bs =
     (if bs = src_trailing then Inr file_trailing else Inl ''expected declaration'')"

text \<open>Twelve variables on consecutive lines, and a comment after the last one.\<close>

definition src_twelve :: "byte list" where
  "src_twelve =
     ''package p'' @ newline @ ''var a int'' @ newline @ ''var b int'' @ newline
     @ ''var c int'' @ newline @ ''var d int'' @ newline @ ''var e int'' @ newline
     @ ''var f int'' @ newline @ ''var g int'' @ newline @ ''var h int'' @ newline
     @ ''var i int'' @ newline @ ''var j int'' @ newline @ ''var k int'' @ newline
     @ ''var l int'' @ newline @ ''// trailer'' @ newline"

definition file_twelve :: File where
  "file_twelve = \<lparr>file_Name = Some ''p'', file_Package = 1,
     file_Decls = [GenDecl 11 20 Tok_VAR [ValueSpec],
                   GenDecl 21 30 Tok_VAR [ValueSpec],
                   GenDecl 31 40 Tok_VAR [ValueSpec],
                   GenDecl 41 50 Tok_VAR [ValueSpec],
                   GenDecl 51 60 Tok_VAR [ValueSpec],
                   GenDecl 61 70 Tok_VAR [ValueSpec],
                   GenDecl 71 80 Tok_VAR [ValueSpec],
                   GenDecl 81 90 Tok_VAR [ValueSpec],
                   GenDecl 91 100 Tok_VAR [ValueSpec],
                   GenDecl 101 110 Tok_VAR [ValueSpec],
                   GenDecl 111 120 Tok_VAR [ValueSpec],
                   GenDecl 121 130 Tok_VAR [ValueSpec]],
     file_Comments = [\<lparr>cg_Pos = 131, cg_End = 141\<rparr>]\<rparr>"

text \<open>
  Twenty-two variables \<open>a\<close> to \<open>v\<close> on consecutive lines, and a comment of 21 bytes
  after the last one.
\<close>

definition src_twentytwo :: "byte list" where
  "src_twentytwo =
     ''package p'' @ newline @ ''var a int'' @ newline @ ''var b int'' @ newline
     @ ''var c int'' @ newline @ ''var d int'' @ newline @ ''var e int'' @ newline
     @ ''var f int'' @ newline @ ''var g int'' @ newline @ ''var h int'' @ newline
     @ ''var i int'' @ newline @ ''var j int'' @ newline @ ''var k int'' @ newline
     @ ''var l int'' @ newline @ ''var m int'' @ newline @ ''var n int'' @ newline
     @ ''var o int'' @ newline @ ''var p int'' @ newline @ ''var q int'' @ newline
     @ ''var r int'' @ newline @ ''var s int'' @ newline @ ''var t int'' @ newline
     @ ''var u int'' @ newline @ ''var v int'' @ newline @ ''// end of variables.''
     @ newline"

definition file_twentytwo :: File where
  "file_twentytwo = \<lparr>file_Name = Some ''p'', file_Package = 1,
     file_Decls = [GenDecl 11 20 Tok_VAR [ValueSpec],
                   GenDecl 21 30 Tok_VAR [ValueSpec],
                   GenDecl 31 40 Tok_VAR [ValueSpec],
                   GenDecl 41 50 Tok_VAR [ValueSpec],
                   GenDecl 51 60 Tok_VAR [ValueSpec],
                   GenDecl 61 70 Tok_VAR [ValueSpec],
                   GenDecl 71 80 Tok_VAR [ValueSpec],
                   GenDecl 81 90 Tok_VAR [ValueSpec],
                   GenDecl 91 100 Tok_VAR [ValueSpec],
                   GenDecl 101 110 Tok_VAR [ValueSpec],
                   GenDecl 111 120 Tok_VAR [ValueSpec],
                   GenDecl 121 130 Tok_VAR [ValueSpec],
                   GenDecl 131 140 Tok_VAR [ValueSpec],
                   GenDecl 141 150 Tok_VAR [ValueSpec],
                   GenDecl 151 160 Tok_VAR [ValueSpec],
                   GenDecl 161 170 Tok_VAR [ValueSpec],
                   GenDecl 171 180 Tok_VAR [ValueSpec],
                   GenDecl 181 190 Tok_VAR [ValueSpec],
                   GenDecl 191 200 Tok_VAR [ValueSpec],
                   GenDecl 201 210 Tok_VAR [ValueSpec],
                   GenDecl 211 220 Tok_VAR [ValueSpec],
                   GenDecl 221 230 Tok_VAR [ValueSpec]],
     file_Comments = [\<lparr>cg_Pos = 231, cg_End = 251\<rparr>]\<rparr>"

text \<open>
  Twelve declarations on consecutive lines, constants among variables, and a comment of
  eleven bytes after the last one.
\<close>

definition src_mixed :: "byte list" where
  "src_mixed =
     ''package p'' @ newline @ ''var a int'' @ newline @ ''const A = 1'' @ newline
     @ ''var b int'' @ newline @ ''const B = 2'' @ newline @ ''var c int'' @ newline
     @ ''var d int'' @ newline @ ''var e int'' @ newline @ ''var f int'' @ newline
     @ ''var g int'' @ newline @ ''var h int'' @ newline @ ''const C = 3'' @ newline
     @ ''const D = 4'' @ newline @ ''// trailer'' @ newline"

definition file_mixed :: File where
  "file_mixed = \<lparr>file_Name = Some ''p'', file_Package = 1,
     file_Decls = [GenDecl 11 20 Tok_VAR [ValueSpec],
                   GenDecl 21 32 Tok_CONST [ValueSpec],
                   GenDecl 33 42 Tok_VAR [ValueSpec],
                   GenDecl 43 54 Tok_CONST [ValueSpec],
                   GenDecl 55 64 Tok_VAR [ValueSpec],
                   GenDecl 65 74 Tok_VAR [ValueSpec],
                   GenDecl 75 84 Tok_VAR [ValueSpec],
                   GenDecl 85 94 Tok_VAR [ValueSpec],
                   GenDecl 95 104 Tok_VAR [ValueSpec],
                   GenDecl 105 114 Tok_VAR [ValueSpec],
                   GenDecl 115 126 Tok_CONST [ValueSpec],
                   GenDecl 127 138 Tok_CONST [ValueSpec]],
     file_Comments = [\<lparr>cg_Pos = 139, cg_End = 149\<rparr>]\<rparr>"

text \<open>Two variables in order on consecutive lines.\<close>

definition src_adjacent :: "byte list" where
  "src_adjacent = ''package p'' @ newline @ ''var a = 1'' @ newline @ ''var b = 2'' @ newline"

definition file_adjacent :: File where
  "file_adjacent = \<lparr>file_Name = Some ''p'', file_Package = 1,
     file_Decls = [GenDecl 11 20 Tok_VAR [ValueSpec], GenDecl 21 30 Tok_VAR [ValueSpec]],
     file_Comments = []\<rparr>"

text \<open>One variable, and no newline after it: the declaration ends where the file ends.\<close>

definition src_no_newline :: "byte list" where
  "src_no_newline = ''package p'' @ newline @ ''var a = 1''"

definition file_no_newline :: File where
  "file_no_newline = \<lparr>file_Name = Some ''p'', file_Package = 1,
     file_Decls = [GenDecl 11 20 Tok_VAR [ValueSpec]],
     file_Comments = []\<rparr>"

text \<open>A constant, a type and a function in order, a blank line between them.\<close>

definition src_tidy :: "byte list" where
  "src_tidy = ''package p'' @ newline @ newline @ ''const C = 1'' @ newline @ newline
     @ ''type Foo struct{}'' @ newline @ newline @ ''func main() {}'' @ newline"

definition file_tidy :: File where
  "file_tidy = \<lparr>file_Name = Some ''p'', file_Package = 1,
     file_Decls = [GenDecl 12 23 Tok_CONST [ValueSpec],
                   GenDecl 25 42 Tok_TYPE [TypeSpec ''Foo''],
                   FuncDecl 44 58 ''main'' None],
     file_Comments = []\<rparr>"

text \<open>
  A package comment, a comment on the line of the package clause, and a comment on a line
  of its own before the first of two functions that are out of order.
\<close>

definition src_header :: "byte list" where
  "src_header = ''// Package p.'' @ newline @ ''package p // trailing'' @ newline @ newline
     @ ''// helpers'' @ newline @ newline @ ''func b() {}'' @ newline @ newline
     @ ''func a() {}'' @ newline"

definition comment_package :: CommentGroup where
  "comment_package = \<lparr>cg_Pos = 1, cg_End = 14\<rparr>"

definition comment_trailing :: CommentGroup where
  "comment_trailing = \<lparr>cg_Pos = 25, cg_End = 36\<rparr>"

definition comment_helpers :: CommentGroup where
  "comment_helpers = \<lparr>cg_Pos = 38, cg_End = 48\<rparr>"

definition file_header :: File where
  "file_header = \<lparr>file_Name = Some ''p'', file_Package = 15,
     file_Decls = [FuncDecl 50 61 ''b'' None, FuncDecl 63 74 ''a'' None],
     file_Comments = [comment_package, comment_trailing, comment_helpers]\<rparr>"

text \<open>
  The scenario: functions, variables, a constant, a type and two of its methods, out of
  order, a blank line between them.
\<close>

definition src_scenario :: "byte list" where
  "src_scenario = ''package p'' @ newline @ newline @ ''func zeta() {}'' @ newline @ newline
     @ ''var W = 1'' @ newline @ newline @ ''const C = 1'' @ newline @ newline
     @ ''type Foo struct{}'' @ newline @ newline @ ''func main() {}'' @ newline @ newline
     @ ''func (Foo) Zeta() {}'' @ newline @ newline @ ''var V = 2'' @ newline @ newline
     @ ''func (f *Foo) Alpha() {}'' @ newline"

definition file_scenario :: File where
  "file_scenario = \<lparr>file_Name = Some ''p'', file_Package = 1,
     file_Decls = [FuncDecl 12 26 ''zeta'' None,
                   GenDecl 28 37 Tok_VAR [ValueSpec],
                   GenDecl 39 50 Tok_CONST [ValueSpec],
                   GenDecl 52 69 Tok_TYPE [TypeSpec ''Foo''],
                   FuncDecl 71 85 ''main'' None,
                   FuncDecl 87 107 ''Zeta'' (Some [Ident ''Foo'']),
                   GenDecl 109 118 Tok_VAR [ValueSpec],
                   FuncDecl 120 144 ''Alpha'' (Some [StarExpr (Ident ''Foo'')])],
     file_Comments = []\<rparr>"

definition decls_scenario :: "declaration_rec list" where
  "decls_scenario = decls_of file_scenario src_scenario"

definition sorted_scenario :: "declaration_rec list" where
  "sorted_scenario = sorted_of decls_scenario"

section \<open>Properties of the comparison\<close>

lemma cmp_Compare_antisym: "cmp_Compare x y = - cmp_Compare y x"
  by (auto simp: cmp_Compare_def)

lemma cmp_Compare_string_antisym: "cmp_Compare_string x y = - cmp_Compare_string y x"
  by (induction x y rule: cmp_Compare_string.induct) auto

lemma cswwn_loop_antisym: "cswwn_loop a b i j = - cswwn_loop b a j i"
proof (induction a b i j rule: cswwn_loop.induct)
  case (1 a b i j)
  show ?case
  proof (cases "i < length a \<and> j < length b")
    case False
    then show ?thesis
      by (subst cswwn_loop.simps, subst (2) cswwn_loop.simps) auto
  next
    case inb: True
    show ?thesis
    proof (cases "a ! i \<noteq> b ! j")
      case True
      with inb show ?thesis
        by (subst cswwn_loop.simps, subst (2) cswwn_loop.simps)
           (auto simp: cmp_Compare_antisym [of "byte_val (a ! i)"])
    next
      case eq: False
      show ?thesis
      proof (cases "isDigit (a ! i)")
        case False
        with inb eq "1.IH"(1) show ?thesis
          by (subst cswwn_loop.simps, subst (2) cswwn_loop.simps) auto
      next
        case dig: True
        show ?thesis
        proof (cases "fst (parseNumber a i) \<noteq> fst (parseNumber b j)")
          case True
          with inb eq dig show ?thesis
            by (subst cswwn_loop.simps, subst (2) cswwn_loop.simps)
               (auto simp: Let_def cmp_Compare_antisym [of "length (fst (parseNumber a i))"]
                  cmp_Compare_string_antisym [of "fst (parseNumber a i)"])
        next
          case False
          with inb eq dig "1.IH"(2) [OF inb _ _ refl refl] show ?thesis
            by (subst cswwn_loop.simps, subst (2) cswwn_loop.simps) (auto simp: Let_def)
        qed
      qed
    qed
  qed
qed

lemma cswwn_loop_refl: "cswwn_loop a a i i = 0"
  using cswwn_loop_antisym [of a a i i] by simp

lemma cswwn_antisym: "compareStringsWithWholeNumbers a b = - compareStringsWithWholeNumbers b a"
  unfolding compareStringsWithWholeNumbers_def by (rule cswwn_loop_antisym)

lemma cswwn_refl: "compareStringsWithWholeNumbers a a = 0"
  unfolding compareStringsWithWholeNumbers_def by (rule cswwn_loop_refl)

lemma names_distinguishedD:
  assumes "names_distinguished ds" "a \<in> set ds" "b \<in> set ds"
    "placement_name a = Inr r" "placement_name b = Inr s"
    "compareStringsWithWholeNumbers r s = 0"
  shows "r = s"
  using assms unfolding names_distinguished_def list_all_iff by fastforce

lemma method_after_type:
  assumes "is_type_named t T" "is_method_of m R" "not_before Format_cmp t m"
  shows "T = R \<or> compareStringsWithWholeNumbers T R \<le> 0"
  using assms cswwn_antisym [of R T]
  by (auto simp: is_type_named_def is_method_of_def not_before_def Format_cmp_def
      compareMethodToDecl_def split: sum.splits if_splits)

lemma type_after_method:
  assumes "is_method_of m R" "is_type_named t T" "not_before Format_cmp m t"
  shows "T \<noteq> R \<and> compareStringsWithWholeNumbers R T \<le> 0"
  using assms cswwn_antisym [of R T]
  by (auto simp: is_type_named_def is_method_of_def not_before_def Format_cmp_def
      compareMethodToDecl_def split: sum.splits if_splits)

lemma methods_same_receiver:
  assumes "is_method_of m R" "is_method_of m' R" "not_before Format_cmp m m'"
  shows "\<exists>f g. getFunctionName m = Inr f \<and> getFunctionName m' = Inr g
           \<and> compareStringsWithWholeNumbers f g \<le> 0"
proof -
  from assms obtain f g where f: "getFunctionName m = Inr f" and g: "getFunctionName m' = Inr g"
    and c: "0 \<le> compareStringsWithWholeNumbers g f"
    using cswwn_refl [of R]
    by (auto simp: is_method_of_def not_before_def Format_cmp_def
        compareMethodToDecl_def Let_def split: sum.splits if_splits)
  with cswwn_antisym [of f g] show ?thesis by auto
qed

lemma func_not_before_method:
  assumes "Tok f = Tok_FUNC" "Tok m = Tok_METHOD"
  shows "\<not> not_before Format_cmp f m"
  using assms
  by (auto simp: not_before_def Format_cmp_def compareMethodToDecl_def split: sum.splits)

lemma between_type_and_method:
  assumes "is_type_named t R" "is_method_of m R"
    and "not_before Format_cmp t x" "not_before Format_cmp x m"
    and nd: "\<And>s. placement_name x = Inr s \<Longrightarrow> compareStringsWithWholeNumbers R s = 0 \<Longrightarrow> R = s"
  shows "is_type_named x R \<or> is_method_of x R"
proof (cases "Tok x")
  case Tok_TYPE
  with assms(1-4) obtain T where T: "getTypeName x = Inr T"
    and c1: "0 \<le> compareStringsWithWholeNumbers T R"
    and c2: "T = R \<or> 0 \<le> compareStringsWithWholeNumbers R T"
    by (auto simp: is_type_named_def is_method_of_def not_before_def Format_cmp_def
        compareMethodToDecl_def split: sum.splits if_splits)
  have "T = R"
  proof (rule ccontr)
    assume "T \<noteq> R"
    with c1 c2 cswwn_antisym [of R T] have "compareStringsWithWholeNumbers R T = 0" by auto
    with nd [of T] T Tok_TYPE \<open>T \<noteq> R\<close> show False by (auto simp: placement_name_def)
  qed
  with T Tok_TYPE show ?thesis by (simp add: is_type_named_def)
next
  case Tok_METHOD
  with assms(1-4) obtain S where S: "getReceiverTypeName x = Inr S"
    and c1: "S = R \<or> 0 \<le> compareStringsWithWholeNumbers S R"
    and c2: "0 \<le> compareStringsWithWholeNumbers R S"
    by (auto simp: is_type_named_def is_method_of_def not_before_def Format_cmp_def
        compareMethodToDecl_def Let_def split: sum.splits if_splits)
  have "S = R"
  proof (rule ccontr)
    assume "S \<noteq> R"
    with c1 c2 cswwn_antisym [of R S] have "compareStringsWithWholeNumbers R S = 0" by auto
    with nd [of S] S Tok_METHOD \<open>S \<noteq> R\<close> show False by (auto simp: placement_name_def)
  qed
  with S Tok_METHOD show ?thesis by (simp add: is_method_of_def)
qed (use assms(1-4) in \<open>auto simp: is_type_named_def is_method_of_def not_before_def Format_cmp_def
        compareMethodToDecl_def cmp_Compare_def map_index_def declOrder_def split: sum.splits if_splits\<close>)

lemma between_methods:
  assumes "is_method_of m R" "is_method_of m' R"
    and "not_before Format_cmp m x" "not_before Format_cmp x m'"
    and nd: "\<And>s. placement_name x = Inr s \<Longrightarrow> compareStringsWithWholeNumbers R s = 0 \<Longrightarrow> R = s"
  shows "is_method_of x R"
proof (cases "Tok x")
  case Tok_TYPE
  with assms(1-4) obtain T where T: "getTypeName x = Inr T" and ne: "T \<noteq> R"
    and c1: "compareStringsWithWholeNumbers R T \<le> 0"
    and c2: "0 \<le> compareStringsWithWholeNumbers R T"
    by (auto simp: is_method_of_def not_before_def Format_cmp_def
        compareMethodToDecl_def split: sum.splits if_splits)
  then have "compareStringsWithWholeNumbers R T = 0" by simp
  with nd [of T] T Tok_TYPE ne show ?thesis by (auto simp: placement_name_def)
next
  case Tok_METHOD
  with assms(1-4) obtain S where S: "getReceiverTypeName x = Inr S"
    and c1: "0 \<le> compareStringsWithWholeNumbers S R"
    and c2: "0 \<le> compareStringsWithWholeNumbers R S"
    by (auto simp: is_method_of_def not_before_def Format_cmp_def
        compareMethodToDecl_def Let_def split: sum.splits if_splits)
  with cswwn_antisym [of R S] have "compareStringsWithWholeNumbers R S = 0" by auto
  with nd [of S] S Tok_METHOD show ?thesis by (auto simp: placement_name_def is_method_of_def)
qed (use assms(1-4) in \<open>auto simp: is_method_of_def not_before_def Format_cmp_def
        compareMethodToDecl_def cmp_Compare_def map_index_def declOrder_def split: sum.splits if_splits\<close>)

text \<open>
  Where the comparator returns, it returns the opposite value for the swapped pair, except
  for two functions that are both named \<open>main\<close>.
\<close>

lemma compareFuncNames_antisym:
  assumes "\<not> (s = mainMethod \<and> t = mainMethod)"
  shows "compareFuncNames t s = - compareFuncNames s t"
  using assms cswwn_antisym [of t s] by (auto simp: compareFuncNames_def)

lemma compareMethodToDecl_methods_antisym:
  assumes "Tok a = Tok_METHOD" "Tok b = Tok_METHOD" "compareMethodToDecl a b = Inr c"
  shows "compareMethodToDecl b a = Inr (- c)"
proof -
  from assms obtain R S f g where R: "getReceiverTypeName a = Inr R"
    and S: "getReceiverTypeName b = Inr S"
    and c: "c = (if compareStringsWithWholeNumbers R S = 0
                 then compareStringsWithWholeNumbers f g
                 else compareStringsWithWholeNumbers R S)"
    and fg: "compareStringsWithWholeNumbers R S = 0 \<longrightarrow>
               getFunctionName a = Inr f \<and> getFunctionName b = Inr g"
    by (auto simp: compareMethodToDecl_def Let_def split: sum.splits if_splits)
  show ?thesis
    using R S c fg assms(1,2) cswwn_antisym [of S R] cswwn_antisym [of g f]
    by (auto simp: compareMethodToDecl_def Let_def)
qed

lemma Format_cmp_antisym:
  assumes "Format_cmp a b = Inr c"
    and "\<not> (Tok a = Tok_FUNC \<and> Tok b = Tok_FUNC
             \<and> Name a = Some mainMethod \<and> Name b = Some mainMethod)"
  shows "Format_cmp b a = Inr (- c)"
proof (cases "Tok a = Tok_METHOD")
  case True
  show ?thesis
  proof (cases "Tok b = Tok_METHOD")
    case True
    with \<open>Tok a = Tok_METHOD\<close> assms(1) compareMethodToDecl_methods_antisym [of a b c]
    show ?thesis by (simp add: Format_cmp_def)
  next
    case False
    with True assms(1) show ?thesis by (simp add: Format_cmp_def)
  qed
next
  case notA: False
  show ?thesis
  proof (cases "Tok b = Tok_METHOD")
    case True
    with notA assms(1) show ?thesis by (auto simp: Format_cmp_def split: sum.splits)
  next
    case notB: False
    show ?thesis
    proof (cases "Tok a = Tok b")
      case False
      with notA notB assms(1) show ?thesis
        using cmp_Compare_antisym [of "map_index declOrder (Tok b)" "map_index declOrder (Tok a)"]
        by (auto simp: Format_cmp_def)
    next
      case same: True
      show ?thesis
      proof (cases "Tok a")
        case Tok_TYPE
        with same assms(1) obtain s t where s: "getTypeName a = Inr s"
          and t: "getTypeName b = Inr t" and c: "c = compareStringsWithWholeNumbers s t"
          by (auto simp: Format_cmp_def split: sum.splits)
        with Tok_TYPE same cswwn_antisym [of t s] show ?thesis
          by (simp add: Format_cmp_def)
      next
        case Tok_FUNC
        with same assms(1) obtain s t where s: "getFunctionName a = Inr s"
          and t: "getFunctionName b = Inr t" and c: "c = compareFuncNames s t"
          by (auto simp: Format_cmp_def split: sum.splits)
        from s t Tok_FUNC same assms(2) have "\<not> (s = mainMethod \<and> t = mainMethod)"
          by (auto simp: getFunctionName_def split: option.splits)
        from compareFuncNames_antisym [OF this] s t c Tok_FUNC same show ?thesis
          by (simp add: Format_cmp_def)
      qed (use same notA assms(1) in \<open>auto simp: Format_cmp_def
             cmp_Compare_antisym [of "OriginalOrder b" "OriginalOrder a"]\<close>)
    qed
  qed
qed

section \<open>Properties of the extraction\<close>

lemma getDecl_fields:
  assumes "getDecl src d node i = Inr r"
  shows "OriginalOrder r = i" and "Node r = node"
    and "slice_expr src (rangeNode_Pos node - 1) (rangeNode_End node) = Inr (Text r)"
  using assms by (auto simp: getDecl_def split: Decl.splits sum.splits)

lemma getDecls_loop_order:
  "getDecls_loop src ds cs lb i = Inr rs \<Longrightarrow> map OriginalOrder rs = [i ..< i + length ds]"
proof (induction ds arbitrary: cs lb i rs)
  case Nil
  then show ?case by simp
next
  case (Cons d ds)
  from Cons.prems obtain r rs' node cs' where r: "getDecl src d node i = Inr r"
    and rs': "getDecls_loop src ds cs' (Decl_End d) (i + 1) = Inr rs'" and rs: "rs = r # rs'"
    by (auto simp: Let_def split: sum.splits)
  from Cons.IH [OF rs'] getDecl_fields(1) [OF r] rs show ?case
    by (simp add: upt_rec)
qed

lemma getDecls_order:
  "getDecls file src = Inr decls \<Longrightarrow> map OriginalOrder decls = [0 ..< length (file_Decls file)]"
  using getDecls_loop_order [of src "file_Decls file" _ _ 0 decls]
  by (auto simp: getDecls_def split: sum.splits)

lemma getDecls_length:
  "getDecls file src = Inr decls \<Longrightarrow> length decls = length (file_Decls file)"
proof -
  assume "getDecls file src = Inr decls"
  then have "length (map OriginalOrder decls) = length [0 ..< length (file_Decls file)]"
    by (simp only: getDecls_order)
  then show ?thesis by simp
qed

lemma stable_cmp:
  assumes "Tok a = t" "Tok b = t" "t = Tok_IMPORT \<or> t = Tok_CONST \<or> t = Tok_VAR"
    and "not_before Format_cmp a b"
  shows "OriginalOrder a \<le> OriginalOrder b"
  using assms
  by (auto simp: not_before_def Format_cmp_def cmp_Compare_def split: if_splits)

lemma sorted_same_mset_eq:
  fixes xs ys :: "nat list"
  assumes "sorted xs" "sorted ys" "mset xs = mset ys"
  shows "xs = ys"
  using assms by (metis sorted_sort_id properties_for_sort)

lemma group_keeps_order:
  assumes decls: "map OriginalOrder decls = [0 ..< length decls]"
    and perm: "mset out = mset decls"
    and sorted: "sorted_wrt (not_before Format_cmp) out"
    and t: "t = Tok_IMPORT \<or> t = Tok_CONST \<or> t = Tok_VAR"
  shows "filter (\<lambda>d. Tok d = t) out = filter (\<lambda>d. Tok d = t) decls"
proof -
  let ?A = "filter (\<lambda>d. Tok d = t) out" and ?B = "filter (\<lambda>d. Tok d = t) decls"
  have "sorted (map OriginalOrder decls)" by (simp add: decls)
  then have sB: "sorted (map OriginalOrder ?B)" by (rule sorted_filter)
  have "sorted_wrt (not_before Format_cmp) ?A" using sorted by (rule sorted_wrt_filter)
  then have "sorted_wrt (\<lambda>a b. OriginalOrder a \<le> OriginalOrder b) ?A"
    by (rule sorted_wrt_mono_rel [rotated]) (auto intro: stable_cmp [OF _ _ t])
  then have sA: "sorted (map OriginalOrder ?A)" by (simp add: sorted_map)
  have "mset ?A = mset ?B" using perm by (simp add: mset_filter)
  then have "mset (map OriginalOrder ?A) = mset (map OriginalOrder ?B)" by simp
  with sA sB have eq: "map OriginalOrder ?A = map OriginalOrder ?B" by (rule sorted_same_mset_eq)
  have "distinct (map OriginalOrder decls)" by (simp add: decls)
  then have "inj_on OriginalOrder (set decls)" by (simp add: distinct_map)
  moreover have "set out = set decls" using perm by (rule mset_eq_setD)
  ultimately have "inj_on OriginalOrder (set ?A \<union> set ?B)"
    by (auto intro: inj_on_subset)
  with eq show ?thesis by (simp add: inj_on_map_eq_map)
qed

section \<open>Properties of Format\<close>

lemma slice_expr_front:
  assumes "slice_expr src 0 k = Inr front"
  shows "front = take (nat k) (backing src)" and "0 \<le> k" and "nat k \<le> length (backing src)"
    and "length front = nat k"
  using assms by (auto simp: slice_expr_def split: if_splits)

lemma go_append_InPlace:
  assumes "go_append arr n xs = InPlace arr'"
  shows "arr' = take n arr @ xs @ drop (n + length xs) arr" and "n + length xs \<le> length arr"
    and "length arr' = length arr" and "take (n + length xs) arr' = take n arr @ xs"
  using assms by (auto simp: go_append_def split: if_splits)

lemma go_append_Reallocated:
  assumes "go_append arr n xs = Reallocated fresh"
  shows "fresh = take n arr @ xs" and "length arr < n + length xs"
  using assms by (auto simp: go_append_def split: if_splits)

lemma Format_success:
  assumes parse: "parseFile filename (slice_bytes src) = Inr file"
    and ne: "file_Decls file \<noteq> []"
    and ok: "Format parseFile sortFunc filename src = Inr r"
  shows "\<exists>decls sortedDecls rest. getDecls file src = Inr decls \<and> decls \<noteq> []
    \<and> sortFunc Format_cmp decls = Inr sortedDecls
    \<and> 0 \<le> rangeNode_Pos (Node (hd decls)) - 1
    \<and> nat (rangeNode_Pos (Node (hd decls)) - 1) \<le> length (backing src)
    \<and> out_bytes r = take (nat (rangeNode_Pos (Node (hd decls)) - 1)) (backing src)
           @ bytes_Join (map Text sortedDecls) newline @ rest"
proof -
  from ok parse ne obtain d ds where decls: "getDecls file src = Inr (d # ds)"
    by (auto simp: Format_def split: sum.splits list.splits)
  let ?k = "rangeNode_Pos (Node d) - 1"
  from ok parse ne decls obtain sortedDecls where srt: "sortFunc Format_cmp (d # ds) = Inr sortedDecls"
    by (auto simp: Format_def Let_def split: sum.splits)
  let ?rw = "bytes_Join (map Text sortedDecls) newline"
  from ok parse ne decls srt obtain front where front: "slice_expr src 0 ?k = Inr front"
    by (auto simp: Format_def Let_def split: sum.splits)
  note f = slice_expr_front [OF front]
  from ok parse ne decls srt front have "\<exists>rest. out_bytes r = front @ ?rw @ rest"
  proof (cases "go_append (backing src) (length front) ?rw")
    case (Reallocated fresh)
    with ok parse ne decls srt front go_append_Reallocated(1) [OF Reallocated] f(1,4)
    show ?thesis
      by (auto simp: Format_def Let_def split: sum.splits)
  next
    case (InPlace arr1)
    note a1 = go_append_InPlace [OF InPlace]
    from ok parse ne decls srt front InPlace obtain rest where
      rest: "slice_expr (src\<lparr>backing := arr1\<rparr>) (rangeNode_End (Node ((d # ds) ! (length (d # ds) - 1))))
              (int (slice_len src)) = Inr rest"
      by (auto simp: Format_def Let_def split: sum.splits)
    show ?thesis
    proof (cases "go_append arr1 (length front + length ?rw) rest")
      case (Reallocated fresh)
      with ok parse ne decls srt front InPlace rest go_append_Reallocated(1) [OF Reallocated]
        a1(4) f(1,4)
      show ?thesis
        by (auto simp: Format_def Let_def split: sum.splits)
    next
      case ip2: (InPlace arr2)
      from go_append_InPlace(4) [OF ip2] a1(4) f(1,4)
      have "take (length front + length ?rw + length rest) arr2 = front @ ?rw @ rest"
        by simp
      with ok parse ne decls srt front InPlace rest ip2
      show ?thesis
        by (auto simp: Format_def Let_def split: sum.splits)
    qed
  qed
  then obtain rest where "out_bytes r = front @ ?rw @ rest" ..
  with decls srt f show ?thesis by auto
qed

lemma bytes_between_append:
  assumes "lo \<le> mid" "mid \<le> hi"
  shows "bytes_between arr lo mid @ bytes_between arr mid hi = bytes_between arr lo hi"
proof -
  from assms have "hi - lo = (mid - lo) + (hi - mid)" by simp
  then have "take (hi - lo) (drop lo arr)
      = take (mid - lo) (drop lo arr) @ take (hi - mid) (drop (mid - lo) (drop lo arr))"
    by (simp only: take_add)
  with assms show ?thesis by (simp add: bytes_between_def)
qed

lemma bytes_between_length:
  "hi \<le> length arr \<Longrightarrow> length (bytes_between arr lo hi) = hi - lo"
  by (simp add: bytes_between_def)

lemma slice_expr_Inr:
  assumes "slice_expr s lo hi = Inr bs"
  shows "bs = bytes_between (backing s) (nat lo) (nat hi)" and "0 \<le> lo" and "lo \<le> hi"
    and "nat hi \<le> length (backing s)"
  using assms by (auto simp: slice_expr_def bytes_between_def split: if_splits)

lemma getDecls_loop_Text:
  "getDecls_loop src ds cs lb i = Inr rs \<Longrightarrow>
     \<forall>r\<in>set rs. slice_expr src (rangeNode_Pos (Node r) - 1) (rangeNode_End (Node r)) = Inr (Text r)"
proof (induction ds arbitrary: cs lb i rs)
  case Nil
  then show ?case by simp
next
  case (Cons d ds)
  from Cons.prems obtain r rs' node cs' where r: "getDecl src d node i = Inr r"
    and rs': "getDecls_loop src ds cs' (Decl_End d) (i + 1) = Inr rs'" and rs: "rs = r # rs'"
    by (auto simp: Let_def split: sum.splits)
  from Cons.IH [OF rs'] getDecl_fields(2,3) [OF r] rs show ?case by simp
qed

lemma getDecls_Text:
  "getDecls file src = Inr decls \<Longrightarrow>
     \<forall>r\<in>set decls. slice_expr src (rangeNode_Pos (Node r) - 1) (rangeNode_End (Node r)) = Inr (Text r)"
  using getDecls_loop_Text [of src "file_Decls file" _ _ 0 decls]
  by (auto simp: getDecls_def split: sum.splits)

lemma join_is_region:
  assumes "\<forall>r\<in>set ds. slice_expr src (rangeNode_Pos (Node r) - 1) (rangeNode_End (Node r)) = Inr (Text r)"
    and "newline_separated (backing src) ds" and "ds \<noteq> []"
  shows "bytes_Join (map Text ds) newline
           = bytes_between (backing src) (nat (rangeNode_Pos (Node (hd ds)) - 1))
               (nat (rangeNode_End (Node (last ds))))
         \<and> nat (rangeNode_Pos (Node (hd ds)) - 1) \<le> nat (rangeNode_End (Node (last ds)))"
  using assms
proof (induction "backing src" ds rule: newline_separated.induct)
  case 1
  then show ?case by simp
next
  case (2 d)
  then show ?case using slice_expr_Inr [of src "rangeNode_Pos (Node d) - 1" "rangeNode_End (Node d)" "Text d"]
    by auto
next
  case (3 d e ds)
  let ?p = "nat (rangeNode_Pos (Node d) - 1)" and ?e = "nat (rangeNode_End (Node d))"
  let ?E = "nat (rangeNode_End (Node (last (e # ds))))"
  from "3.prems" have td: "slice_expr src (rangeNode_Pos (Node d) - 1) (rangeNode_End (Node d)) = Inr (Text d)"
    by simp
  note d = slice_expr_Inr [OF td]
  from "3.prems" have nl: "bytes_between (backing src) ?e (?e + 1) = newline"
    and nx: "rangeNode_Pos (Node e) - 1 = rangeNode_End (Node d) + 1"
    and sep: "newline_separated (backing src) (e # ds)" by auto
  from "3.hyps" [OF _ sep] "3.prems"(1)
  have ih: "bytes_Join (map Text (e # ds)) newline
      = bytes_between (backing src) (nat (rangeNode_Pos (Node e) - 1)) ?E"
    and le: "nat (rangeNode_Pos (Node e) - 1) \<le> ?E" by auto
  from nx d have pe: "nat (rangeNode_Pos (Node e) - 1) = ?e + 1" by simp
  have "bytes_Join (map Text (d # e # ds)) newline
      = bytes_between (backing src) ?p ?e @ bytes_between (backing src) ?e (?e + 1)
        @ bytes_between (backing src) (?e + 1) ?E"
    using d(1) nl ih pe by simp
  also have "\<dots> = bytes_between (backing src) ?p ?E"
    using d le pe by (simp add: bytes_between_append)
  finally show ?case using d le pe by simp
qed

lemma bytes_between_whole:
  assumes "lo \<le> hi"
  shows "take lo arr @ bytes_between arr lo hi @ drop hi arr = arr"
proof -
  have "take lo arr = bytes_between arr 0 lo" by (simp add: bytes_between_def)
  with assms have "take lo arr @ bytes_between arr lo hi = bytes_between arr 0 hi"
    by (simp add: bytes_between_append)
  then have "(take lo arr @ bytes_between arr lo hi) @ drop hi arr = arr"
    by (simp add: bytes_between_def)
  then show ?thesis by simp
qed

lemma go_append_same:
  assumes "lo \<le> hi" "hi \<le> length arr"
  shows "go_append arr lo (bytes_between arr lo hi) = InPlace arr"
  using assms bytes_between_whole [OF assms(1), of arr]
  by (simp add: go_append_def bytes_between_length)

lemma getDecls_loop_starts:
  "getDecls_loop src ds cs lb i = Inr rs \<Longrightarrow>
     \<forall>r\<in>set rs. (\<exists>d\<in>set ds. rn_start (Node r) = DeclNode d)
        \<or> (\<exists>c\<in>set (dropWhile (\<lambda>c. cg_Pos c < lb) cs). rn_start (Node r) = CommentNode c)"
proof (induction ds arbitrary: cs lb i rs)
  case Nil
  then show ?case by simp
next
  case (Cons d ds)
  let ?cs' = "dropWhile (\<lambda>c. cg_Pos c < lb) cs"
  let ?node = "\<lparr>rn_end = DeclNode d,
                 rn_start = (case ?cs' of [] \<Rightarrow> DeclNode d
                             | c # rest \<Rightarrow> if cg_Pos c < Decl_Pos d then CommentNode c
                                          else DeclNode d)\<rparr>"
  from Cons.prems obtain r rs' where r: "getDecl src d ?node i = Inr r"
    and rs': "getDecls_loop src ds ?cs' (Decl_End d) (i + 1) = Inr rs'" and rs: "rs = r # rs'"
    by (auto simp: Let_def split: sum.splits)
  have "rn_start (Node r) = DeclNode d \<or> (\<exists>c\<in>set ?cs'. rn_start (Node r) = CommentNode c)"
    using getDecl_fields(2) [OF r] by (auto split: list.splits)
  moreover have "\<forall>r\<in>set rs'. (\<exists>d\<in>set ds. rn_start (Node r) = DeclNode d)
        \<or> (\<exists>c\<in>set ?cs'. rn_start (Node r) = CommentNode c)"
    using Cons.IH [OF rs'] by (meson set_dropWhileD)
  ultimately show ?case using rs by auto
qed

lemma getDecls_loop_first_start:
  assumes "getDecls_loop src (d # ds) cs lb i = Inr (r # rs)"
  shows "rn_start (Node r) = DeclNode d
     \<or> (\<exists>c rest. dropWhile (\<lambda>c. cg_Pos c < lb) cs = c # rest \<and> rn_start (Node r) = CommentNode c)"
proof -
  let ?cs' = "dropWhile (\<lambda>c. cg_Pos c < lb) cs"
  let ?node = "\<lparr>rn_end = DeclNode d,
                 rn_start = (case ?cs' of [] \<Rightarrow> DeclNode d
                             | c # rest \<Rightarrow> if cg_Pos c < Decl_Pos d then CommentNode c
                                          else DeclNode d)\<rparr>"
  from assms have r: "getDecl src d ?node i = Inr r"
    by (auto simp: Let_def split: sum.splits)
  from getDecl_fields(2) [OF r] show ?thesis by (auto split: list.splits)
qed

lemma in_order_suffix_ge:
  assumes "comments_in_order cs" "x \<in> set (dropWhile (\<lambda>c. cg_Pos c < lb) cs)"
  shows "lb \<le> cg_Pos x"
proof -
  let ?P = "\<lambda>c. cg_Pos c < lb"
  from assms(2) obtain c rest where cr: "dropWhile ?P cs = c # rest"
    by (cases "dropWhile ?P cs") auto
  then have c: "lb \<le> cg_Pos c" using hd_dropWhile [of ?P cs] by fastforce
  have split: "cs = takeWhile ?P cs @ c # rest" using cr by (metis takeWhile_dropWhile_id)
  then have "c \<in> set cs" by (metis in_set_conv_decomp)
  with assms(1) have pe: "cg_Pos c \<le> cg_End c"
    by (auto simp: comments_in_order_def list_all_iff)
  from assms(1) split
  have "sorted_wrt (\<lambda>a b. cg_End a \<le> cg_Pos b) (takeWhile ?P cs @ c # rest)"
    by (simp add: comments_in_order_def)
  then have "\<forall>y\<in>set rest. cg_End c \<le> cg_Pos y" by (simp add: sorted_wrt_append)
  with c pe assms(2) cr show ?thesis by auto
qed

lemma in_order_prefix_before:
  assumes "comments_in_order cs" "c \<in> set cs" "cg_Pos c < lb"
    and "dropWhile (\<lambda>c. cg_Pos c < lb) cs = c' # rest"
  shows "cg_End c \<le> cg_Pos c'"
proof -
  let ?P = "\<lambda>c. cg_Pos c < lb"
  have split: "cs = takeWhile ?P cs @ c' # rest" using assms(4) by (metis takeWhile_dropWhile_id)
  have "c \<notin> set (c' # rest)"
    using in_order_suffix_ge [OF assms(1), of c lb] assms(3,4) by auto
  with assms(2) split have "c \<in> set (takeWhile ?P cs)"
    by (metis Un_iff set_append)
  moreover from assms(1) split
  have "sorted_wrt (\<lambda>a b. cg_End a \<le> cg_Pos b) (takeWhile ?P cs @ c' # rest)"
    by (simp add: comments_in_order_def)
  ultimately show ?thesis by (auto simp: sorted_wrt_append)
qed

section \<open>Properties of insertion sort\<close>

lemma insertionSort_inner_mset:
  "insertionSort_inner cmp x ys = Inr zs \<Longrightarrow> mset zs = add_mset x (mset ys)"
proof (induction ys arbitrary: zs)
  case Nil
  then show ?case by auto
next
  case (Cons y ys)
  then show ?case by (fastforce split: sum.splits if_splits)
qed

lemma insertionSort_outer_mset:
  "insertionSort_outer cmp acc xs = Inr ys \<Longrightarrow> mset ys = mset acc + mset xs"
proof (induction xs arbitrary: acc ys)
  case Nil
  then show ?case by auto
next
  case (Cons x xs)
  from Cons.prems obtain acc' where a: "insertionSort_inner cmp x acc = Inr acc'"
    and r: "insertionSort_outer cmp acc' xs = Inr ys"
    by (auto split: sum.splits)
  from Cons.IH [OF r] insertionSort_inner_mset [OF a] show ?case by simp
qed

lemma insertionSortCmpFunc_mset:
  "insertionSortCmpFunc cmp xs = Inr ys \<Longrightarrow> mset ys = mset xs"
  using insertionSort_outer_mset [of cmp "[]" xs ys] by (simp add: insertionSortCmpFunc_def)

lemma insertionSort_inner_shape:
  "insertionSort_inner cmp x ys = Inr zs \<Longrightarrow>
     \<exists>us vs. ys = us @ vs \<and> zs = us @ x # vs
        \<and> (\<forall>u\<in>set us. \<exists>c. cmp x u = Inr c \<and> c < 0)"
proof (induction ys arbitrary: zs)
  case Nil
  then show ?case by auto
next
  case (Cons y ys)
  from Cons.prems obtain c where c: "cmp x y = Inr c" by (auto split: sum.splits)
  show ?case
  proof (cases "c < 0")
    case True
    with Cons.prems c obtain zs' where zs': "insertionSort_inner cmp x ys = Inr zs'"
      and zs: "zs = y # zs'"
      by (auto split: sum.splits)
    from Cons.IH [OF zs'] obtain us vs where "ys = us @ vs" "zs' = us @ x # vs"
      "\<forall>u\<in>set us. \<exists>c. cmp x u = Inr c \<and> c < 0" by blast
    with zs c True have "y # ys = (y # us) @ vs \<and> zs = (y # us) @ x # vs
        \<and> (\<forall>u\<in>set (y # us). \<exists>c. cmp x u = Inr c \<and> c < 0)" by auto
    then show ?thesis by blast
  next
    case False
    with Cons.prems c have "zs = x # y # ys" by auto
    then have "y # ys = [] @ (y # ys) \<and> zs = [] @ x # (y # ys)
        \<and> (\<forall>u\<in>set []. \<exists>c. cmp x u = Inr c \<and> c < 0)" by simp
    then show ?thesis by blast
  qed
qed

lemma stable_not_below:
  assumes "Tok x = t" "Tok y = t" "stable_token t" "OriginalOrder y < OriginalOrder x"
  shows "\<not> (\<exists>c. Format_cmp x y = Inr c \<and> c < 0)"
  using assms
  by (auto simp: stable_token_def Format_cmp_def cmp_Compare_def)

lemma insertionSort_inner_group:
  assumes ins: "insertionSort_inner Format_cmp x acc = Inr acc'"
    and t: "stable_token t"
    and earlier: "\<forall>y\<in>set acc. OriginalOrder y < OriginalOrder x"
  shows "filter (\<lambda>d. Tok d = t) (rev acc') = filter (\<lambda>d. Tok d = t) (rev acc @ [x])"
proof -
  from insertionSort_inner_shape [OF ins] obtain us vs where acc: "acc = us @ vs"
    and acc': "acc' = us @ x # vs"
    and below: "\<forall>u\<in>set us. \<exists>c. Format_cmp x u = Inr c \<and> c < 0" by blast
  show ?thesis
  proof (cases "Tok x = t")
    case False
    with acc acc' show ?thesis by simp
  next
    case True
    have "\<forall>u\<in>set us. Tok u \<noteq> t"
    proof
      fix u assume u: "u \<in> set us"
      with earlier acc have "OriginalOrder u < OriginalOrder x" by simp
      with stable_not_below [OF True _ t this] below u show "Tok u \<noteq> t" by blast
    qed
    then have "filter (\<lambda>d. Tok d = t) us = []" by (simp add: filter_empty_conv)
    then have "filter (\<lambda>d. Tok d = t) (rev us) = []"
      by (metis filter_empty_conv set_rev)
    with acc acc' True show ?thesis by simp
  qed
qed

lemma insertionSort_outer_group:
  assumes "insertionSort_outer Format_cmp acc xs = Inr out"
    and "stable_token t"
    and "\<forall>y\<in>set acc. \<forall>x\<in>set xs. OriginalOrder y < OriginalOrder x"
    and "sorted_wrt (\<lambda>a b. OriginalOrder a < OriginalOrder b) xs"
  shows "filter (\<lambda>d. Tok d = t) out
           = filter (\<lambda>d. Tok d = t) (rev acc) @ filter (\<lambda>d. Tok d = t) xs"
  using assms
proof (induction xs arbitrary: acc out)
  case Nil
  then show ?case by simp
next
  case (Cons x xs)
  from Cons.prems(1) obtain acc' where a: "insertionSort_inner Format_cmp x acc = Inr acc'"
    and r: "insertionSort_outer Format_cmp acc' xs = Inr out"
    by (auto split: sum.splits)
  from Cons.prems(3) have earlier: "\<forall>y\<in>set acc. OriginalOrder y < OriginalOrder x"
    by simp
  note g = insertionSort_inner_group [OF a Cons.prems(2) earlier]
  from insertionSort_inner_mset [OF a] have "set acc' = insert x (set acc)"
    by (metis mset_eq_setD set_mset_add_mset_insert set_mset_mset)
  with Cons.prems(3,4)
  have inv: "\<forall>y\<in>set acc'. \<forall>z\<in>set xs. OriginalOrder y < OriginalOrder z" by auto
  from Cons.prems(4) have srt: "sorted_wrt (\<lambda>a b. OriginalOrder a < OriginalOrder b) xs"
    by simp
  from Cons.IH [OF r Cons.prems(2) inv srt] g show ?case by simp
qed

lemma insertionSort_keeps_group_order:
  assumes decls: "map OriginalOrder decls = [0 ..< length decls]"
    and run: "insertionSortCmpFunc Format_cmp decls = Inr out"
    and t: "stable_token t"
  shows "filter (\<lambda>d. Tok d = t) out = filter (\<lambda>d. Tok d = t) decls"
proof -
  have "sorted_wrt (<) (map OriginalOrder decls)"
    by (simp add: decls strict_sorted_iff)
  then have "sorted_wrt (\<lambda>a b. OriginalOrder a < OriginalOrder b) decls"
    by (simp add: sorted_wrt_map)
  with insertionSort_outer_group [of "[]" decls out t] run t show ?thesis
    by (simp add: insertionSortCmpFunc_def)
qed

section \<open>The numeric-aware comparison on concrete names\<close>

text \<open>
  Claim C1. The numeric-aware comparison is meant to put the smaller embedded number
  first, so that \<open>item2\<close> precedes \<open>item10\<close>, and a file with the types \<open>item2\<close>,
  \<open>item10\<close>, \<open>item9\<close> comes out in the order \<open>item2\<close>, \<open>item9\<close>, \<open>item10\<close>. The code
  compares the first differing bytes before it looks for a number, so here it compares
  \<open>2\<close> with \<open>1\<close>: \<open>item2\<close> sorts after \<open>item10\<close>, and the file comes out in the order
  \<open>item10\<close>, \<open>item2\<close>, \<open>item9\<close>.
\<close>

theorem item2_sorts_after_item10:
  "compareStringsWithWholeNumbers ''item2'' ''item10'' = 1
   \<and> compareStringsWithWholeNumbers ''item9'' ''item10'' = 1
   \<and> compareStringsWithWholeNumbers ''item2'' ''item9'' = - 1
   \<and> Format (\<lambda>name bs. Inr file_items) insertionSortCmpFunc ''items.go'' (exact_slice src_items)
       = Inr \<lparr>out_bytes = ''package p'' @ newline @ newline @ ''type item10 int'' @ newline
                   @ newline @ ''type item2 int'' @ newline @ newline @ ''type item9 int''
                   @ newline,
                out_shares_src = True,
                src_after = ''package p'' @ newline @ newline @ ''type item10 int'' @ newline
                   @ newline @ ''type item2 int'' @ newline @ newline @ ''type item9 int''
                   @ newline\<rparr>"
  by code_simp

text \<open>
  Claim C10. The names \<open>x0\<close> and \<open>x00\<close> differ only in the length of a run of zeros; the
  numeric-aware comparison returns 0 for them in both directions, and so does the
  comparator on two type declarations with these names.
\<close>

theorem zero_runs_compare_equal:
  "compareStringsWithWholeNumbers ''x0'' ''x00'' = 0
   \<and> compareStringsWithWholeNumbers ''x00'' ''x0'' = 0
   \<and> ''x0'' \<noteq> ''x00''
   \<and> getTypeName type_x0 = Inr ''x0''
   \<and> getTypeName type_x00 = Inr ''x00''
   \<and> Format_cmp type_x0 type_x00 = Inr 0
   \<and> Format_cmp type_x00 type_x0 = Inr 0"
  by code_simp

section \<open>The comparator as an order\<close>

text \<open>
  Claim C5. A total order has \<open>compare(a, b) = -compare(b, a)\<close>, and 0 for equal keys,
  also for two functions named \<open>main\<close>. \<open>compareFuncNames\<close> returns -1 as soon as its
  first argument is \<open>main\<close>: for two functions named \<open>main\<close> the comparator returns -1
  in both directions, and -1 for a declaration compared with itself.
\<close>

theorem main_main_compares_below_both_ways:
  "compareFuncNames ''main'' ''main'' = - 1
   \<and> Format_cmp func_main_0 func_main_1 = Inr (- 1)
   \<and> Format_cmp func_main_1 func_main_0 = Inr (- 1)
   \<and> Format_cmp func_main_0 func_main_0 = Inr (- 1)"
  by code_simp

section \<open>Methods next to their type\<close>

text \<open>
  Claim C4. In the sorted output the methods of \<open>R\<close> are to come immediately after the
  type \<open>R\<close>, as the comments of the formatter say. The method rule tests the type name
  for identity with the receiver name and otherwise returns the numeric-aware comparison
  of the two, which is 0 for \<open>x0\<close> and \<open>x00\<close>: the method of \<open>x0\<close> and the type \<open>x00\<close>
  compare as equal, as the types \<open>x0\<close> and \<open>x00\<close> do. The sequence type \<open>x0\<close>, type
  \<open>x00\<close>, method of \<open>x0\<close> is in ascending order for the comparator, insertion sort
  leaves it as it is, and \<open>Format\<close> returns the file with the type \<open>x00\<close> between the
  type \<open>x0\<close> and its method.
\<close>

theorem other_type_between_type_and_method:
  "getDecls file_zeros (exact_slice src_zeros) = Inr [type_x0, type_x00, method_x0_f]
   \<and> insertionSortCmpFunc Format_cmp [type_x0, type_x00, method_x0_f]
       = Inr [type_x0, type_x00, method_x0_f]
   \<and> sorted_wrt (not_before Format_cmp) [type_x0, type_x00, method_x0_f]
   \<and> is_type_named type_x0 ''x0''
   \<and> is_type_named type_x00 ''x00''
   \<and> is_method_of method_x0_f ''x0''
   \<and> Format (\<lambda>name bs. Inr file_zeros) insertionSortCmpFunc ''zeros.go'' (exact_slice src_zeros)
       = Inr \<lparr>out_bytes = src_zeros, out_shares_src = True, src_after = src_zeros\<rparr>"
  by code_simp

text \<open>
  Where no two different type or receiver names compare as equal, the methods do stand
  next to their type. In a sequence in ascending order for the comparator: between a type
  \<open>R\<close> and a method of \<open>R\<close> there are only declarations of the type \<open>R\<close> and methods of
  \<open>R\<close>; no method of \<open>R\<close> precedes a type \<open>R\<close>; between two methods of \<open>R\<close> there are
  only methods of \<open>R\<close>; the methods of \<open>R\<close> are in the numeric-aware order of their
  names; no function precedes a method; and a method of \<open>R\<close> stands where the name \<open>R\<close>
  stands among the type names: a type before it has a name that compares at most equal to
  \<open>R\<close>, a type after it a name that compares above \<open>R\<close>.
\<close>

theorem methods_cluster_after_type:
  assumes sorted: "sorted_wrt (not_before Format_cmp) out"
    and nd: "names_distinguished out"
  shows "(\<forall>i k j R. i < k \<and> k < j \<and> j < length out
             \<and> is_type_named (out ! i) R \<and> is_method_of (out ! j) R
           \<longrightarrow> is_type_named (out ! k) R \<or> is_method_of (out ! k) R)
       \<and> (\<forall>i j R. i < j \<and> j < length out \<and> is_method_of (out ! i) R
           \<longrightarrow> \<not> is_type_named (out ! j) R)
       \<and> (\<forall>i k j R. i < k \<and> k < j \<and> j < length out
             \<and> is_method_of (out ! i) R \<and> is_method_of (out ! j) R
           \<longrightarrow> is_method_of (out ! k) R)
       \<and> (\<forall>i j R. i < j \<and> j < length out
             \<and> is_method_of (out ! i) R \<and> is_method_of (out ! j) R
           \<longrightarrow> (\<exists>f g. getFunctionName (out ! i) = Inr f \<and> getFunctionName (out ! j) = Inr g
                  \<and> compareStringsWithWholeNumbers f g \<le> 0))
       \<and> (\<forall>i j. i < j \<and> j < length out \<and> Tok (out ! i) = Tok_FUNC
           \<longrightarrow> Tok (out ! j) \<noteq> Tok_METHOD)
       \<and> (\<forall>i j T R. i < j \<and> j < length out
             \<and> is_type_named (out ! i) T \<and> is_method_of (out ! j) R
           \<longrightarrow> compareStringsWithWholeNumbers T R \<le> 0)
       \<and> (\<forall>i j T R. i < j \<and> j < length out
             \<and> is_method_of (out ! i) R \<and> is_type_named (out ! j) T
           \<longrightarrow> compareStringsWithWholeNumbers R T < 0)"
proof -
  have nb: "not_before Format_cmp (out ! i) (out ! j)" if "i < j" "j < length out" for i j
    using sorted that by (simp add: sorted_wrt_iff_nth_less)
  have dist: "R = s"
    if "k < length out" "i < length out" "placement_name (out ! i) = Inr R"
      "placement_name (out ! k) = Inr s" "compareStringsWithWholeNumbers R s = 0" for i k R s
    using names_distinguishedD [OF nd _ _ that(3,4,5)] that(1,2) by simp
  have c1: "is_type_named (out ! k) R \<or> is_method_of (out ! k) R"
    if "i < k" "k < j" "j < length out" "is_type_named (out ! i) R" "is_method_of (out ! j) R"
    for i k j R
  proof (rule between_type_and_method [OF that(4,5) nb nb])
    show "i < k" "k < length out" "k < j" "j < length out" using that by auto
    fix s assume "placement_name (out ! k) = Inr s" "compareStringsWithWholeNumbers R s = 0"
    moreover have "placement_name (out ! i) = Inr R"
      using that(4) by (simp add: placement_name_def is_type_named_def)
    ultimately show "R = s" using dist [of k i R s] that by simp
  qed
  have c2: "\<not> is_type_named (out ! j) R" if "i < j" "j < length out" "is_method_of (out ! i) R"
    for i j R
    using type_after_method [OF that(3) _ nb [OF that(1,2)]] by blast
  have c3: "is_method_of (out ! k) R"
    if "i < k" "k < j" "j < length out" "is_method_of (out ! i) R" "is_method_of (out ! j) R"
    for i k j R
  proof (rule between_methods [OF that(4,5) nb nb])
    show "i < k" "k < length out" "k < j" "j < length out" using that by auto
    fix s assume "placement_name (out ! k) = Inr s" "compareStringsWithWholeNumbers R s = 0"
    moreover have "placement_name (out ! i) = Inr R"
      using that(4) by (simp add: placement_name_def is_method_of_def)
    ultimately show "R = s" using dist [of k i R s] that by simp
  qed
  have c4: "\<exists>f g. getFunctionName (out ! i) = Inr f \<and> getFunctionName (out ! j) = Inr g
                  \<and> compareStringsWithWholeNumbers f g \<le> 0"
    if "i < j" "j < length out" "is_method_of (out ! i) R" "is_method_of (out ! j) R" for i j R
    using methods_same_receiver [OF that(3,4) nb [OF that(1,2)]] .
  have c5: "Tok (out ! j) \<noteq> Tok_METHOD" if "i < j" "j < length out" "Tok (out ! i) = Tok_FUNC"
    for i j
    using func_not_before_method [OF that(3)] nb [OF that(1,2)] by blast
  have c6: "compareStringsWithWholeNumbers T R \<le> 0"
    if "i < j" "j < length out" "is_type_named (out ! i) T" "is_method_of (out ! j) R"
    for i j T R
    using method_after_type [OF that(3,4) nb [OF that(1,2)]] cswwn_refl [of R] by auto
  have c7: "compareStringsWithWholeNumbers R T < 0"
    if "i < j" "j < length out" "is_method_of (out ! i) R" "is_type_named (out ! j) T"
    for i j T R
  proof -
    from type_after_method [OF that(3,4) nb [OF that(1,2)]]
    have ne: "T \<noteq> R" and le: "compareStringsWithWholeNumbers R T \<le> 0" by auto
    have "compareStringsWithWholeNumbers R T \<noteq> 0"
    proof
      assume "compareStringsWithWholeNumbers R T = 0"
      moreover have "placement_name (out ! i) = Inr R"
        using that(3) by (simp add: placement_name_def is_method_of_def)
      moreover have "placement_name (out ! j) = Inr T"
        using that(4) by (simp add: placement_name_def is_type_named_def)
      ultimately have "R = T" using dist [of j i R T] that by simp
      with ne show False by simp
    qed
    with le show ?thesis by simp
  qed
  show ?thesis
    apply (intro conjI)
    subgoal using c1 by blast
    subgoal using c2 by blast
    subgoal using c3 by blast
    subgoal using c4 by blast
    subgoal using c5 by blast
    subgoal using c6 by blast
    subgoal using c7 by blast
    done
qed


theorem methods_cluster_after_type_witness:
  "sorted_wrt (not_before Format_cmp) sorted_scenario
   \<and> names_distinguished sorted_scenario
   \<and> map Tok sorted_scenario
       = [Tok_CONST, Tok_VAR, Tok_VAR, Tok_TYPE, Tok_METHOD, Tok_METHOD, Tok_FUNC, Tok_FUNC]
   \<and> is_type_named (sorted_scenario ! 3) ''Foo''
   \<and> is_method_of (sorted_scenario ! 5) ''Foo''
   \<and> (is_type_named (sorted_scenario ! 4) ''Foo'' \<or> is_method_of (sorted_scenario ! 4) ''Foo'')
   \<and> Tok (sorted_scenario ! 7) \<noteq> Tok_METHOD"
proof -
  have s: "sorted_wrt (not_before Format_cmp) sorted_scenario" by code_simp
  have n: "names_distinguished sorted_scenario" by code_simp
  have t: "map Tok sorted_scenario
       = [Tok_CONST, Tok_VAR, Tok_VAR, Tok_TYPE, Tok_METHOD, Tok_METHOD, Tok_FUNC, Tok_FUNC]"
    by code_simp
  have a: "is_type_named (sorted_scenario ! 3) ''Foo''" by code_simp
  have b: "is_method_of (sorted_scenario ! 5) ''Foo''" by code_simp
  have f: "Tok (sorted_scenario ! 6) = Tok_FUNC" by code_simp
  have l: "length sorted_scenario = 8" using arg_cong [OF t, of length] by simp
  note th = methods_cluster_after_type [OF s n]
  have "\<forall>i k j R. i < k \<and> k < j \<and> j < length sorted_scenario
             \<and> is_type_named (sorted_scenario ! i) R \<and> is_method_of (sorted_scenario ! j) R
           \<longrightarrow> is_type_named (sorted_scenario ! k) R \<or> is_method_of (sorted_scenario ! k) R"
    by (rule th [THEN conjunct1])
  from this [rule_format, of 3 4 5 "''Foo''"] a b l
  have between: "is_type_named (sorted_scenario ! 4) ''Foo''
      \<or> is_method_of (sorted_scenario ! 4) ''Foo''"
    by simp
  have "\<forall>i j. i < j \<and> j < length sorted_scenario \<and> Tok (sorted_scenario ! i) = Tok_FUNC
           \<longrightarrow> Tok (sorted_scenario ! j) \<noteq> Tok_METHOD"
    by (rule th [THEN conjunct2, THEN conjunct2, THEN conjunct2, THEN conjunct2, THEN conjunct1])
  from this [rule_format, of 6 7] f l have func: "Tok (sorted_scenario ! 7) \<noteq> Tok_METHOD"
    by simp
  from s n t a b between func show ?thesis by (intro conjI)
qed

section \<open>Imports, constants and variables keep their order\<close>

text \<open>
  The sort honours the tie-breaking by \<open>OriginalOrder\<close>. The sort is either the insertion
  sort that \<open>slices.SortFunc\<close> runs on at most 12 elements, or any sort whose result is
  what \<open>slices.SortFunc\<close> documents: a rearrangement of the records in ascending order
  for the comparator. The imports of the sorted sequence are the imports of the input in
  their order; so are the constants, and so are the variables; and the output holds the
  texts of the sorted sequence in its order, joined by newlines. This is a statement on the
  sorted sequence and on the place of its texts in the output: it says nothing on the
  bytes that follow them in the output.
\<close>

theorem import_const_var_keep_input_order:
  assumes parse: "parseFile filename (slice_bytes src) = Inr file"
    and decls: "getDecls file src = Inr decls"
    and srt: "sortFunc Format_cmp decls = Inr sortedDecls"
    and sort: "sortFunc = insertionSortCmpFunc
               \<or> (mset sortedDecls = mset decls
                   \<and> sorted_wrt (not_before Format_cmp) sortedDecls)"
    and ok: "Format parseFile sortFunc filename src = Inr r"
  shows "(\<exists>front rest. out_bytes r = front @ bytes_Join (map Text sortedDecls) newline @ rest)
       \<and> filter (\<lambda>d. Tok d = Tok_IMPORT) sortedDecls = filter (\<lambda>d. Tok d = Tok_IMPORT) decls
       \<and> filter (\<lambda>d. Tok d = Tok_CONST) sortedDecls = filter (\<lambda>d. Tok d = Tok_CONST) decls
       \<and> filter (\<lambda>d. Tok d = Tok_VAR) sortedDecls = filter (\<lambda>d. Tok d = Tok_VAR) decls"
proof -
  have ord: "map OriginalOrder decls = [0 ..< length decls]"
    using getDecls_order [OF decls] getDecls_length [OF decls] by simp
  have perm: "mset sortedDecls = mset decls"
    using sort srt insertionSortCmpFunc_mset [of Format_cmp decls sortedDecls] by blast
  have shape: "\<exists>front rest. out_bytes r = front @ bytes_Join (map Text sortedDecls) newline @ rest"
  proof (cases "file_Decls file = []")
    case True
    with getDecls_length [OF decls] have "decls = []" by simp
    with perm have "sortedDecls = []" by simp
    then have "out_bytes r = out_bytes r @ bytes_Join (map Text sortedDecls) newline @ []"
      by simp
    then show ?thesis by blast
  next
    case False
    from Format_success [OF parse False ok] decls srt
    obtain rest where "out_bytes r
        = take (nat (rangeNode_Pos (Node (hd decls)) - 1)) (backing src)
          @ bytes_Join (map Text sortedDecls) newline @ rest"
      by auto
    then show ?thesis by blast
  qed
  have group: "filter (\<lambda>d. Tok d = t) sortedDecls = filter (\<lambda>d. Tok d = t) decls"
    if t: "stable_token t" for t
    using sort
  proof
    assume "sortFunc = insertionSortCmpFunc"
    with srt have "insertionSortCmpFunc Format_cmp decls = Inr sortedDecls" by simp
    from insertionSort_keeps_group_order [OF ord this t] show ?thesis .
  next
    assume "mset sortedDecls = mset decls \<and> sorted_wrt (not_before Format_cmp) sortedDecls"
    with group_keeps_order [OF ord, of sortedDecls t] t show ?thesis
      by (simp add: stable_token_def)
  qed
  from shape group [of Tok_IMPORT] group [of Tok_CONST] group [of Tok_VAR] show ?thesis
    by (simp add: stable_token_def)
qed

theorem import_const_var_keep_input_order_witness:
  "getDecls file_scenario (exact_slice src_scenario) = Inr decls_scenario
   \<and> insertionSortCmpFunc Format_cmp decls_scenario = Inr sorted_scenario
   \<and> mset sorted_scenario = mset decls_scenario
   \<and> sorted_wrt (not_before Format_cmp) sorted_scenario
   \<and> map Tok decls_scenario
       = [Tok_FUNC, Tok_VAR, Tok_CONST, Tok_TYPE, Tok_FUNC, Tok_METHOD, Tok_VAR, Tok_METHOD]
   \<and> map OriginalOrder sorted_scenario = [2, 1, 6, 3, 7, 5, 4, 0]
   \<and> Format (\<lambda>name bs. Inr file_scenario) insertionSortCmpFunc ''scenario.go''
         (exact_slice src_scenario)
       = Inr \<lparr>out_bytes = ''package p'' @ newline @ newline @ ''const C = 1'' @ newline
                   @ newline @ ''var W = 1'' @ newline @ newline @ ''var V = 2'' @ newline
                   @ newline @ ''type Foo struct{}'' @ newline @ newline
                   @ ''func (f *Foo) Alpha() {}'' @ newline @ newline
                   @ ''func (Foo) Zeta() {}'' @ newline @ newline @ ''func main() {}''
                   @ newline @ newline @ ''func zeta() {}'' @ newline,
                out_shares_src = True,
                src_after = ''package p'' @ newline @ newline @ ''const C = 1'' @ newline
                   @ newline @ ''var W = 1'' @ newline @ newline @ ''var V = 2'' @ newline
                   @ newline @ ''type Foo struct{}'' @ newline @ newline
                   @ ''func (f *Foo) Alpha() {}'' @ newline @ newline
                   @ ''func (Foo) Zeta() {}'' @ newline @ newline @ ''func main() {}''
                   @ newline @ newline @ ''func zeta() {}'' @ newline\<rparr>
   \<and> filter (\<lambda>d. Tok d = Tok_IMPORT) sorted_scenario
       = filter (\<lambda>d. Tok d = Tok_IMPORT) decls_scenario
   \<and> filter (\<lambda>d. Tok d = Tok_CONST) sorted_scenario
       = filter (\<lambda>d. Tok d = Tok_CONST) decls_scenario
   \<and> filter (\<lambda>d. Tok d = Tok_VAR) sorted_scenario
       = filter (\<lambda>d. Tok d = Tok_VAR) decls_scenario"
proof -
  let ?parse = "\<lambda>(name :: string) (bs :: byte list). (Inr file_scenario :: string + File)"
  let ?r = "\<lparr>out_bytes = ''package p'' @ newline @ newline @ ''const C = 1'' @ newline
                   @ newline @ ''var W = 1'' @ newline @ newline @ ''var V = 2'' @ newline
                   @ newline @ ''type Foo struct{}'' @ newline @ newline
                   @ ''func (f *Foo) Alpha() {}'' @ newline @ newline
                   @ ''func (Foo) Zeta() {}'' @ newline @ newline @ ''func main() {}''
                   @ newline @ newline @ ''func zeta() {}'' @ newline,
                out_shares_src = True,
                src_after = ''package p'' @ newline @ newline @ ''const C = 1'' @ newline
                   @ newline @ ''var W = 1'' @ newline @ newline @ ''var V = 2'' @ newline
                   @ newline @ ''type Foo struct{}'' @ newline @ newline
                   @ ''func (f *Foo) Alpha() {}'' @ newline @ newline
                   @ ''func (Foo) Zeta() {}'' @ newline @ newline @ ''func main() {}''
                   @ newline @ newline @ ''func zeta() {}'' @ newline\<rparr>"
  have p: "?parse ''scenario.go'' (slice_bytes (exact_slice src_scenario)) = Inr file_scenario"
    by simp
  have d: "getDecls file_scenario (exact_slice src_scenario) = Inr decls_scenario"
    by code_simp
  have s: "insertionSortCmpFunc Format_cmp decls_scenario = Inr sorted_scenario"
    by code_simp
  have m: "mset sorted_scenario = mset decls_scenario"
    using s by (rule insertionSortCmpFunc_mset)
  have w: "sorted_wrt (not_before Format_cmp) sorted_scenario" by code_simp
  have t: "map Tok decls_scenario
       = [Tok_FUNC, Tok_VAR, Tok_CONST, Tok_TYPE, Tok_FUNC, Tok_METHOD, Tok_VAR, Tok_METHOD]"
    by code_simp
  have oo: "map OriginalOrder sorted_scenario = [2, 1, 6, 3, 7, 5, 4, 0]" by code_simp
  have f: "Format ?parse insertionSortCmpFunc ''scenario.go'' (exact_slice src_scenario) = Inr ?r"
    by code_simp
  from import_const_var_keep_input_order [where parseFile = ?parse and filename = "''scenario.go''"
      and src = "exact_slice src_scenario" and sortFunc = insertionSortCmpFunc,
      OF p d s disjI1 [OF refl] f]
  have "filter (\<lambda>d. Tok d = Tok_IMPORT) sorted_scenario
       = filter (\<lambda>d. Tok d = Tok_IMPORT) decls_scenario"
    and "filter (\<lambda>d. Tok d = Tok_CONST) sorted_scenario
       = filter (\<lambda>d. Tok d = Tok_CONST) decls_scenario"
    and "filter (\<lambda>d. Tok d = Tok_VAR) sorted_scenario
       = filter (\<lambda>d. Tok d = Tok_VAR) decls_scenario"
    by blast+
  with d s m w t oo f show ?thesis by (intro conjI)
qed

text \<open>
  Two runs of \<open>Format\<close> that get the same sorted records from their sorts return the
  same result.
\<close>

lemma Format_depends_on_sorted_records:
  assumes parse: "parseFile filename (slice_bytes src) = Inr file"
    and decls: "getDecls file src = Inr decls"
    and same: "sortFunc Format_cmp decls = sortFunc' Format_cmp decls"
  shows "Format parseFile sortFunc filename src = Format parseFile sortFunc' filename src"
proof (cases decls)
  case Nil
  with parse decls show ?thesis by (simp add: Format_def)
next
  case (Cons d ds)
  with same have "sortFunc Format_cmp (d # ds) = sortFunc' Format_cmp (d # ds)" by simp
  with parse decls Cons show ?thesis by (simp add: Format_def Let_def)
qed

text \<open>
  Records that are all imports, all constants or all variables have one rearrangement in
  ascending order for the comparator: the order of the input.
\<close>

lemma ascending_arrangement_of_one_group:
  assumes ord: "map OriginalOrder decls = [0 ..< length decls]"
    and tok: "list_all (\<lambda>d. Tok d = t) decls"
    and t: "stable_token t"
    and perm: "mset out = mset decls"
    and asc: "sorted_wrt (not_before Format_cmp) out"
  shows "out = decls"
proof -
  from t have t': "t = Tok_IMPORT \<or> t = Tok_CONST \<or> t = Tok_VAR"
    by (simp add: stable_token_def)
  have eq: "filter (\<lambda>d. Tok d = t) out = filter (\<lambda>d. Tok d = t) decls"
    by (rule group_keeps_order [OF ord perm asc t'])
  from perm have "set out = set decls" by (rule mset_eq_setD)
  with tok have tok': "list_all (\<lambda>d. Tok d = t) out" by (simp add: list_all_iff)
  from tok have "filter (\<lambda>d. Tok d = t) decls = decls" by (simp add: list_all_iff)
  moreover from tok' have "filter (\<lambda>d. Tok d = t) out = out" by (simp add: list_all_iff)
  ultimately show ?thesis using eq by simp
qed

text \<open>
  Claim C8. For every input, within each of the categories Import, Const and Var, the
  declarations are to stand in the output in the order they have in the input. The sort
  keeps that order, the output does not. On the 22 variables \<open>a\<close> to \<open>v\<close> on consecutive
  lines, followed by a comment of 21 bytes, the records are 22 variables numbered 0 to 21
  in input order, each compares below every later one, and the sort returns them as they
  are. The rewritten region, the 22 texts joined by newlines, is 21 bytes longer than the
  region it replaces and is written in place over the comment; the rest of the file, read
  after that, is the last 21 bytes of the rewritten region, the texts of \<open>u\<close> and \<open>v\<close>. The
  output declares \<open>a\<close> to \<open>v\<close> and then \<open>u\<close> and \<open>v\<close> once more: a declaration of \<open>v\<close> stands
  before a declaration of \<open>u\<close>, two variables that the input has in the other order, and
  the output has 24 variable declarations for the 22 of the input.
\<close>

theorem Format_repeats_variables_out_of_order:
  "getDecls file_twentytwo (exact_slice src_twentytwo)
       = Inr (decls_of file_twentytwo src_twentytwo)
   \<and> map Tok (decls_of file_twentytwo src_twentytwo) = replicate 22 Tok_VAR
   \<and> map OriginalOrder (decls_of file_twentytwo src_twentytwo) = [0 ..< 22]
   \<and> sorted_wrt (\<lambda>a b. Format_cmp a b = Inr (- 1) \<and> Format_cmp b a = Inr 1)
        (decls_of file_twentytwo src_twentytwo)
   \<and> insertionSortCmpFunc Format_cmp (decls_of file_twentytwo src_twentytwo)
       = Inr (decls_of file_twentytwo src_twentytwo)
   \<and> Format (\<lambda>name bs. Inr file_twentytwo) insertionSortCmpFunc ''twentytwo.go''
         (exact_slice src_twentytwo)
     = Inr \<lparr>out_bytes =
                 ''package p'' @ newline @ ''var a int'' @ newline @ newline
                 @ ''var b int'' @ newline @ newline @ ''var c int'' @ newline
                 @ newline @ ''var d int'' @ newline @ newline @ ''var e int''
                 @ newline @ newline @ ''var f int'' @ newline @ newline
                 @ ''var g int'' @ newline @ newline @ ''var h int'' @ newline
                 @ newline @ ''var i int'' @ newline @ newline @ ''var j int''
                 @ newline @ newline @ ''var k int'' @ newline @ newline
                 @ ''var l int'' @ newline @ newline @ ''var m int'' @ newline
                 @ newline @ ''var n int'' @ newline @ newline @ ''var o int''
                 @ newline @ newline @ ''var p int'' @ newline @ newline
                 @ ''var q int'' @ newline @ newline @ ''var r int'' @ newline
                 @ newline @ ''var s int'' @ newline @ newline @ ''var t int''
                 @ newline @ newline @ ''var u int'' @ newline @ newline
                 @ ''var v int'' @ newline @ ''var u int'' @ newline @ newline
                 @ ''var v int'' @ newline,
              out_shares_src = False,
              src_after =
                 ''package p'' @ newline @ ''var a int'' @ newline @ newline
                 @ ''var b int'' @ newline @ newline @ ''var c int'' @ newline
                 @ newline @ ''var d int'' @ newline @ newline @ ''var e int''
                 @ newline @ newline @ ''var f int'' @ newline @ newline
                 @ ''var g int'' @ newline @ newline @ ''var h int'' @ newline
                 @ newline @ ''var i int'' @ newline @ newline @ ''var j int''
                 @ newline @ newline @ ''var k int'' @ newline @ newline
                 @ ''var l int'' @ newline @ newline @ ''var m int'' @ newline
                 @ newline @ ''var n int'' @ newline @ newline @ ''var o int''
                 @ newline @ newline @ ''var p int'' @ newline @ newline
                 @ ''var q int'' @ newline @ newline @ ''var r int'' @ newline
                 @ newline @ ''var s int'' @ newline @ newline @ ''var t int''
                 @ newline @ newline @ ''var u int'' @ newline @ newline
                 @ ''var v int'' @ newline\<rparr>"
  by code_simp

text \<open>
  Insertion sort is what \<open>slices.SortFunc\<close> runs on at most 12 elements; on the 22 records
  of this input the result of \<open>Format\<close> is the same for every sort. The records are all
  variables, so the order of the input is their only rearrangement in ascending order for
  the comparator: a sort that returns such a rearrangement, as \<open>slices.SortFunc\<close> documents,
  returns the records as they are, and \<open>Format\<close> returns what it returns with insertion
  sort.
\<close>

lemma Format_twentytwo_for_every_ascending_sort:
  assumes srt: "sortFunc Format_cmp (decls_of file_twentytwo src_twentytwo) = Inr out"
    and perm: "mset out = mset (decls_of file_twentytwo src_twentytwo)"
    and asc: "sorted_wrt (not_before Format_cmp) out"
  shows "out = decls_of file_twentytwo src_twentytwo
       \<and> Format (\<lambda>name bs. Inr file_twentytwo) sortFunc ''twentytwo.go''
             (exact_slice src_twentytwo)
           = Format (\<lambda>name bs. Inr file_twentytwo) insertionSortCmpFunc ''twentytwo.go''
               (exact_slice src_twentytwo)"
proof -
  let ?ds = "decls_of file_twentytwo src_twentytwo"
  let ?parse = "\<lambda>(name :: string) (bs :: byte list). (Inr file_twentytwo :: string + File)"
  have d: "getDecls file_twentytwo (exact_slice src_twentytwo) = Inr ?ds" by code_simp
  have ord: "map OriginalOrder ?ds = [0 ..< length ?ds]" by code_simp
  have tok: "list_all (\<lambda>d. Tok d = Tok_VAR) ?ds" by code_simp
  have ins: "insertionSortCmpFunc Format_cmp ?ds = Inr ?ds" by code_simp
  have st: "stable_token Tok_VAR" by (simp add: stable_token_def)
  have out: "out = ?ds"
    by (rule ascending_arrangement_of_one_group [OF ord tok st perm asc])
  have p: "?parse ''twentytwo.go'' (slice_bytes (exact_slice src_twentytwo)) = Inr file_twentytwo"
    by simp
  from srt out ins have same: "sortFunc Format_cmp ?ds = insertionSortCmpFunc Format_cmp ?ds"
    by simp
  have "Format ?parse sortFunc ''twentytwo.go'' (exact_slice src_twentytwo)
      = Format ?parse insertionSortCmpFunc ''twentytwo.go'' (exact_slice src_twentytwo)"
    by (rule Format_depends_on_sorted_records
          [where parseFile = ?parse and filename = "''twentytwo.go''"
             and src = "exact_slice src_twentytwo" and decls = ?ds
             and sortFunc = sortFunc and sortFunc' = insertionSortCmpFunc, OF p d same])
  with out show ?thesis by simp
qed

text \<open>
  With twelve declarations, where insertion sort is the sort that runs, the variables of
  the output are not those of the input either. On four constants among eight variables
  \<open>a\<close> to \<open>h\<close>, on consecutive lines and followed by a comment of eleven bytes, the output
  has the four constants, the eight variables and then \<open>h\<close> once more.
\<close>

lemma Format_repeats_last_of_twelve_mixed:
  "Format (\<lambda>name bs. Inr file_mixed) insertionSortCmpFunc ''mixed.go''
       (exact_slice src_mixed)
     = Inr \<lparr>out_bytes =
                 ''package p'' @ newline @ ''const A = 1'' @ newline @ newline
                 @ ''const B = 2'' @ newline @ newline @ ''const C = 3'' @ newline
                 @ newline @ ''const D = 4'' @ newline @ newline @ ''var a int''
                 @ newline @ newline @ ''var b int'' @ newline @ newline
                 @ ''var c int'' @ newline @ newline @ ''var d int'' @ newline
                 @ newline @ ''var e int'' @ newline @ newline @ ''var f int''
                 @ newline @ newline @ ''var g int'' @ newline @ newline
                 @ ''var h int'' @ newline @ newline @ ''var h int'' @ newline,
              out_shares_src = False,
              src_after =
                 ''package p'' @ newline @ ''const A = 1'' @ newline @ newline
                 @ ''const B = 2'' @ newline @ newline @ ''const C = 3'' @ newline
                 @ newline @ ''const D = 4'' @ newline @ newline @ ''var a int''
                 @ newline @ newline @ ''var b int'' @ newline @ newline
                 @ ''var c int'' @ newline @ newline @ ''var d int'' @ newline
                 @ newline @ ''var e int'' @ newline @ newline @ ''var f int''
                 @ newline @ newline @ ''var g int'' @ newline @ newline
                 @ ''var h int'' @ newline\<rparr>"
  by code_simp

section \<open>Input that is already sorted\<close>

text \<open>
  Claim C3, as the claim states it: for input whose declarations are already in sorted
  order the output is the input. The two variables \<open>a\<close> and \<open>b\<close> on consecutive lines are
  in sorted order, and insertion sort leaves them as they are. The text of each record
  ends with the newline after its declaration and the texts are joined by a newline, so
  the output has a blank line between the two declarations and is one byte longer than
  the input.
\<close>

theorem adjacent_declarations_get_blank_line:
  "getDecls file_adjacent (exact_slice src_adjacent) = Inr (decls_of file_adjacent src_adjacent)
   \<and> insertionSortCmpFunc Format_cmp (decls_of file_adjacent src_adjacent)
       = Inr (decls_of file_adjacent src_adjacent)
   \<and> sorted_wrt (not_before Format_cmp) (decls_of file_adjacent src_adjacent)
   \<and> map Text (decls_of file_adjacent src_adjacent)
       = [''var a = 1'' @ newline, ''var b = 2'' @ newline]
   \<and> Format (\<lambda>name bs. Inr file_adjacent) insertionSortCmpFunc ''adjacent.go''
         (exact_slice src_adjacent)
       = Inr \<lparr>out_bytes = ''package p'' @ newline @ ''var a = 1'' @ newline @ newline
                   @ ''var b = 2'' @ newline,
                out_shares_src = False,
                src_after = src_adjacent\<rparr>
   \<and> ''package p'' @ newline @ ''var a = 1'' @ newline @ newline @ ''var b = 2'' @ newline
       \<noteq> src_adjacent"
  by code_simp

text \<open>
  The text of a record reaches one byte past the end of its declaration. When the last
  declaration ends where the file ends, and the buffer has no spare capacity, that byte is
  outside the buffer and \<open>getDecl\<close> panics.
\<close>

lemma Format_panics_without_final_newline:
  "Format (\<lambda>name bs. Inr file_no_newline) insertionSortCmpFunc ''no_newline.go''
     (exact_slice src_no_newline) = Inl (Panic SliceBoundsOutOfRange)"
  by code_simp

text \<open>
  Claim C3, amended. When the declarations are already in sorted order (the sort returns
  the records as they are), after the text of each record but the last comes exactly one
  newline byte and then the text of the next record, and the text of every record ends
  within the source, then \<open>Format\<close> returns the bytes of the input, and the source buffer
  holds what it held.
\<close>

theorem Format_identity_when_sorted_and_newline_separated:
  assumes wf: "slice_len src \<le> length (backing src)"
    and parse: "parseFile filename (slice_bytes src) = Inr file"
    and decls: "getDecls file src = Inr decls"
    and srt: "sortFunc Format_cmp decls = Inr decls"
    and sep: "newline_separated (backing src) decls"
    and within: "\<forall>d\<in>set decls. rangeNode_End (Node d) \<le> int (slice_len src)"
  shows "\<exists>r. Format parseFile sortFunc filename src = Inr r
             \<and> out_bytes r = slice_bytes src \<and> src_after r = backing src"
proof (cases decls)
  case Nil
  with getDecls_length [OF decls] parse show ?thesis
    by (simp add: Format_def)
next
  case (Cons d ds)
  define L where "L = last (d # ds)"
  let ?arr = "backing src" and ?n = "slice_len src"
  let ?k = "nat (rangeNode_Pos (Node d) - 1)" and ?E = "nat (rangeNode_End (Node L))"
  have nthL: "(d # ds) ! length ds = L"
    using last_conv_nth [of "d # ds"] by (simp add: L_def)
  have Lin: "L \<in> set (d # ds)" unfolding L_def by (rule last_in_set) simp
  note decls' = decls [unfolded Cons] and srt' = srt [unfolded Cons]
  from getDecls_length [OF decls'] have fne: "file_Decls file \<noteq> []" by auto
  from join_is_region [OF getDecls_Text [OF decls'] sep [unfolded Cons]]
  have rw: "bytes_Join (map Text (d # ds)) newline = bytes_between ?arr ?k ?E" and kE: "?k \<le> ?E"
    by (simp_all add: L_def)
  from getDecls_Text [OF decls']
  have "slice_expr src (rangeNode_Pos (Node d) - 1) (rangeNode_End (Node d)) = Inr (Text d)"
    by simp
  from slice_expr_Inr(2) [OF this] have k0: "0 \<le> rangeNode_Pos (Node d) - 1" .
  from within Lin Cons have En: "rangeNode_End (Node L) \<le> int ?n" by blast
  from getDecls_Text [OF decls'] Lin
  have "slice_expr src (rangeNode_Pos (Node L) - 1) (rangeNode_End (Node L)) = Inr (Text L)"
    by blast
  from slice_expr_Inr(2,3) [OF this] have E0: "0 \<le> rangeNode_End (Node L)" by linarith
  from En E0 wf have En': "?E \<le> ?n" "?E \<le> length ?arr" by linarith+
  have front: "slice_expr src 0 (rangeNode_Pos (Node d) - 1) = Inr (take ?k ?arr)"
    using k0 kE En' by (simp add: slice_expr_def)
  have len_front: "min (length ?arr) ?k = ?k" using kE En' by simp
  have len_rw: "length (bytes_between ?arr ?k ?E) = ?E - ?k"
    using En' by (simp add: bytes_between_length)
  have a1: "go_append ?arr ?k (bytes_between ?arr ?k ?E) = InPlace ?arr"
    by (rule go_append_same [OF kE En'(2)])
  have rest: "slice_expr src (rangeNode_End (Node L)) (int ?n) = Inr (bytes_between ?arr ?E ?n)"
    using E0 En wf by (simp add: slice_expr_def bytes_between_def)
  have a2: "go_append ?arr ?E (bytes_between ?arr ?E ?n) = InPlace ?arr"
    by (rule go_append_same [OF En'(1) wf])
  have len_rest: "length (bytes_between ?arr ?E ?n) = ?n - ?E"
    using wf by (simp add: bytes_between_length)
  have kE': "?k + (?E - ?k) = ?E" using kE by simp
  have tot: "?E + (?n - ?E) = ?n" using En' by simp
  have "Format parseFile sortFunc filename src
      = Inr \<lparr>out_bytes = take ?n ?arr, out_shares_src = True, src_after = ?arr\<rparr>"
    unfolding Format_def
    by (simp add: parse fne decls' srt' nthL rw [simplified] front len_front len_rw a1 rest
        a2 len_rest kE' tot Let_def)
  then show ?thesis by (simp add: slice_bytes_def)
qed

theorem Format_identity_when_sorted_and_newline_separated_witness:
  "slice_len (exact_slice src_tidy) \<le> length (backing (exact_slice src_tidy))
   \<and> getDecls file_tidy (exact_slice src_tidy) = Inr (decls_of file_tidy src_tidy)
   \<and> map Tok (decls_of file_tidy src_tidy) = [Tok_CONST, Tok_TYPE, Tok_FUNC]
   \<and> insertionSortCmpFunc Format_cmp (decls_of file_tidy src_tidy)
       = Inr (decls_of file_tidy src_tidy)
   \<and> newline_separated src_tidy (decls_of file_tidy src_tidy)
   \<and> list_all (\<lambda>d. rangeNode_End (Node d) \<le> int (length src_tidy)) (decls_of file_tidy src_tidy)
   \<and> (\<exists>r. Format (\<lambda>name bs. Inr file_tidy) insertionSortCmpFunc ''tidy.go''
             (exact_slice src_tidy) = Inr r
          \<and> out_bytes r = src_tidy \<and> src_after r = src_tidy)"
proof -
  let ?parse = "\<lambda>(name :: string) (bs :: byte list). (Inr file_tidy :: string + File)"
  let ?ds = "decls_of file_tidy src_tidy"
  have wf: "slice_len (exact_slice src_tidy) \<le> length (backing (exact_slice src_tidy))"
    by (simp add: exact_slice_def)
  have p: "?parse ''tidy.go'' (slice_bytes (exact_slice src_tidy)) = Inr file_tidy" by simp
  have d: "getDecls file_tidy (exact_slice src_tidy) = Inr ?ds" by code_simp
  have t: "map Tok ?ds = [Tok_CONST, Tok_TYPE, Tok_FUNC]" by code_simp
  have s: "insertionSortCmpFunc Format_cmp ?ds = Inr ?ds" by code_simp
  have n: "newline_separated src_tidy ?ds" by code_simp
  have e: "list_all (\<lambda>d. rangeNode_End (Node d) \<le> int (length src_tidy)) ?ds" by code_simp
  have n': "newline_separated (backing (exact_slice src_tidy)) ?ds"
    using n by (simp add: exact_slice_def)
  have e': "\<forall>d\<in>set ?ds. rangeNode_End (Node d) \<le> int (slice_len (exact_slice src_tidy))"
    using e by (simp add: exact_slice_def list_all_iff)
  from Format_identity_when_sorted_and_newline_separated [where parseFile = ?parse
      and filename = "''tidy.go''" and sortFunc = insertionSortCmpFunc, OF wf p d s n' e']
  have "\<exists>r. Format ?parse insertionSortCmpFunc ''tidy.go'' (exact_slice src_tidy) = Inr r
          \<and> out_bytes r = src_tidy \<and> src_after r = src_tidy"
    by (simp add: exact_slice_def slice_bytes_def)
  with wf d t s n e show ?thesis by (intro conjI)
qed

section \<open>Comments before the first declaration\<close>

text \<open>
  Claim C2, as the claim states it: a comment block in the gap between the package header
  and the first declaration is carried by no record and stays in the header. The comment
  \<open>// helpers\<close> stands on a line of its own between the package clause and the first
  declaration, the function \<open>b\<close>. \<open>getDecls\<close> starts at the first newline after the
  package keyword: the record of \<open>b\<close> starts at the comment, its text holds the comment,
  and in the output the comment has moved behind the function \<open>a\<close> together with \<open>b\<close>.
\<close>

theorem comment_in_gap_moves_with_first_declaration:
  "cg_End comment_helpers \<le> Decl_Pos (hd (file_Decls file_header))
   \<and> newlinePosAfterPackageDecl file_header (exact_slice src_header) = Inr 36
   \<and> getDecls file_header (exact_slice src_header) = Inr (decls_of file_header src_header)
   \<and> map (\<lambda>d. rn_start (Node d)) (decls_of file_header src_header)
       = [CommentNode comment_helpers, DeclNode (FuncDecl 63 74 ''a'' None)]
   \<and> map Text (decls_of file_header src_header)
       = [''// helpers'' @ newline @ newline @ ''func b() {}'' @ newline,
          ''func a() {}'' @ newline]
   \<and> Format (\<lambda>name bs. Inr file_header) insertionSortCmpFunc ''header.go''
         (exact_slice src_header)
       = Inr \<lparr>out_bytes = ''// Package p.'' @ newline @ ''package p // trailing'' @ newline
                   @ newline @ ''func a() {}'' @ newline @ newline @ ''// helpers'' @ newline
                   @ newline @ ''func b() {}'' @ newline,
                out_shares_src = True,
                src_after = ''// Package p.'' @ newline @ ''package p // trailing'' @ newline
                   @ newline @ ''func a() {}'' @ newline @ newline @ ''// helpers'' @ newline
                   @ newline @ ''func b() {}'' @ newline\<rparr>"
  by code_simp

text \<open>
  Claim C2, amended. Take a comment block that begins before the left bound of
  \<open>getDecls\<close>, the first newline after the package keyword (the start of the file when
  there is none), and that ends before every declaration, in a file whose comments are in
  source order. No record starts at this comment; it ends before the first record begins;
  and the output agrees with the input on all bytes up to the end of the comment. (A
  comment block between that newline and the first declaration belongs to the record of
  the first declaration.)
\<close>

theorem comment_before_left_bound_stays_in_header:
  assumes parse: "parseFile filename (slice_bytes src) = Inr file"
    and ord: "comments_in_order (file_Comments file)"
    and lb: "newlinePosAfterPackageDecl file src = Inr lb"
    and c: "c \<in> set (file_Comments file)"
    and before_lb: "cg_Pos c < (if lb = NoPos then 1 else lb)"
    and before_decls: "\<forall>d\<in>set (file_Decls file). cg_End c \<le> Decl_Pos d"
    and inside: "cg_End c - 1 \<le> int (slice_len src)"
    and decls: "getDecls file src = Inr decls"
    and ok: "Format parseFile sortFunc filename src = Inr r"
  shows "(\<forall>d\<in>set decls. rn_start (Node d) \<noteq> CommentNode c)
       \<and> (decls \<noteq> [] \<longrightarrow> cg_End c \<le> rangeNode_Pos (Node (hd decls)))
       \<and> take (nat (cg_End c - 1)) (out_bytes r) = take (nat (cg_End c - 1)) (slice_bytes src)"
proof -
  let ?lb = "if lb = NoPos then 1 else lb"
  from decls lb have loop: "getDecls_loop src (file_Decls file) (file_Comments file) ?lb 0 = Inr decls"
    by (simp add: getDecls_def)
  have p1: "\<forall>d\<in>set decls. rn_start (Node d) \<noteq> CommentNode c"
  proof
    fix d assume "d \<in> set decls"
    with getDecls_loop_starts [OF loop]
    consider d' where "rn_start (Node d) = DeclNode d'"
      | c' where "c' \<in> set (dropWhile (\<lambda>c. cg_Pos c < ?lb) (file_Comments file))"
          "rn_start (Node d) = CommentNode c'"
      by blast
    then show "rn_start (Node d) \<noteq> CommentNode c"
    proof cases
      case 1
      then show ?thesis by simp
    next
      case 2
      from in_order_suffix_ge [OF ord 2(1)] before_lb have "c' \<noteq> c" by auto
      with 2(2) show ?thesis by simp
    qed
  qed
  have p2: "cg_End c \<le> rangeNode_Pos (Node (hd decls))" if "decls \<noteq> []"
  proof -
    from that obtain r0 rs where rs: "decls = r0 # rs" by (cases decls) auto
    with getDecls_length [OF decls] obtain d0 ds where ds: "file_Decls file = d0 # ds"
      by (cases "file_Decls file") auto
    from getDecls_loop_first_start [OF loop [unfolded ds rs]]
    consider "rn_start (Node r0) = DeclNode d0"
      | c' rest where "dropWhile (\<lambda>c. cg_Pos c < ?lb) (file_Comments file) = c' # rest"
          "rn_start (Node r0) = CommentNode c'"
      by blast
    then show ?thesis
    proof cases
      case 1
      with before_decls ds rs show ?thesis by (simp add: rangeNode_Pos_def)
    next
      case 2
      from in_order_prefix_before [OF ord c before_lb 2(1)] 2(2) rs show ?thesis
        by (simp add: rangeNode_Pos_def)
    qed
  qed
  have p3: "take (nat (cg_End c - 1)) (out_bytes r) = take (nat (cg_End c - 1)) (slice_bytes src)"
  proof (cases "file_Decls file = []")
    case True
    with ok parse show ?thesis by (auto simp: Format_def)
  next
    case False
    from Format_success [OF parse False ok] decls
    obtain sortedDecls :: "declaration_rec list" and rest where
      ne: "decls \<noteq> []"
      and kn: "nat (rangeNode_Pos (Node (hd decls)) - 1) \<le> length (backing src)"
      and out: "out_bytes r = take (nat (rangeNode_Pos (Node (hd decls)) - 1)) (backing src)
           @ bytes_Join (map Text sortedDecls) newline @ rest"
      by auto
    let ?m = "nat (cg_End c - 1)" and ?k = "nat (rangeNode_Pos (Node (hd decls)) - 1)"
    from p2 [OF ne] have mk: "?m \<le> ?k" by simp
    with kn out have "take ?m (out_bytes r) = take ?m (backing src)" by simp
    moreover from inside have "take ?m (slice_bytes src) = take ?m (backing src)"
      by (simp add: slice_bytes_def min_absorb2)
    ultimately show ?thesis by simp
  qed
  show ?thesis
  proof (intro conjI impI)
    show "\<forall>d\<in>set decls. rn_start (Node d) \<noteq> CommentNode c" by (rule p1)
    show "cg_End c \<le> rangeNode_Pos (Node (hd decls))" if "decls \<noteq> []" using that by (rule p2)
    show "take (nat (cg_End c - 1)) (out_bytes r) = take (nat (cg_End c - 1)) (slice_bytes src)"
      by (rule p3)
  qed
qed

theorem comment_before_left_bound_stays_in_header_witness:
  "comments_in_order (file_Comments file_header)
   \<and> newlinePosAfterPackageDecl file_header (exact_slice src_header) = Inr 36
   \<and> comment_trailing \<in> set (file_Comments file_header)
   \<and> cg_Pos comment_trailing < 36
   \<and> list_all (\<lambda>d. cg_End comment_trailing \<le> Decl_Pos d) (file_Decls file_header)
   \<and> cg_End comment_trailing - 1 \<le> int (length src_header)
   \<and> getDecls file_header (exact_slice src_header) = Inr (decls_of file_header src_header)
   \<and> length (decls_of file_header src_header) = 2
   \<and> list_all (\<lambda>d. rn_start (Node d) \<noteq> CommentNode comment_trailing)
        (decls_of file_header src_header)
   \<and> cg_End comment_trailing \<le> rangeNode_Pos (Node (hd (decls_of file_header src_header)))
   \<and> (\<exists>r. Format (\<lambda>name bs. Inr file_header) insertionSortCmpFunc ''header.go''
             (exact_slice src_header) = Inr r
          \<and> take (nat (cg_End comment_trailing - 1)) (out_bytes r)
            = take (nat (cg_End comment_trailing - 1)) src_header)"
proof -
  let ?parse = "\<lambda>(name :: string) (bs :: byte list). (Inr file_header :: string + File)"
  let ?ds = "decls_of file_header src_header"
  let ?r = "\<lparr>out_bytes = ''// Package p.'' @ newline @ ''package p // trailing'' @ newline
                   @ newline @ ''func a() {}'' @ newline @ newline @ ''// helpers'' @ newline
                   @ newline @ ''func b() {}'' @ newline,
                out_shares_src = True,
                src_after = ''// Package p.'' @ newline @ ''package p // trailing'' @ newline
                   @ newline @ ''func a() {}'' @ newline @ newline @ ''// helpers'' @ newline
                   @ newline @ ''func b() {}'' @ newline\<rparr>"
  have p: "?parse ''header.go'' (slice_bytes (exact_slice src_header)) = Inr file_header"
    by simp
  have o: "comments_in_order (file_Comments file_header)" by code_simp
  have b: "newlinePosAfterPackageDecl file_header (exact_slice src_header) = Inr 36"
    by code_simp
  have c: "comment_trailing \<in> set (file_Comments file_header)"
    by (simp add: file_header_def)
  have lt: "cg_Pos comment_trailing < 36" by (simp add: comment_trailing_def)
  have lt': "cg_Pos comment_trailing < (if (36 :: int) = NoPos then 1 else 36)"
    using lt by (simp add: NoPos_def)
  have bd: "list_all (\<lambda>d. cg_End comment_trailing \<le> Decl_Pos d) (file_Decls file_header)"
    by (simp add: file_header_def comment_trailing_def)
  then have bd': "\<forall>d\<in>set (file_Decls file_header). cg_End comment_trailing \<le> Decl_Pos d"
    by (simp add: list_all_iff)
  have ins: "cg_End comment_trailing - 1 \<le> int (length src_header)" by code_simp
  then have ins': "cg_End comment_trailing - 1 \<le> int (slice_len (exact_slice src_header))"
    by (simp add: exact_slice_def)
  have d: "getDecls file_header (exact_slice src_header) = Inr ?ds" by code_simp
  have l: "length ?ds = 2" by code_simp
  have f: "Format ?parse insertionSortCmpFunc ''header.go'' (exact_slice src_header) = Inr ?r"
    by code_simp
  note th = comment_before_left_bound_stays_in_header [where parseFile = ?parse
      and filename = "''header.go''" and sortFunc = insertionSortCmpFunc,
      OF p o b c lt' bd' ins' d f]
  from th have c1: "list_all (\<lambda>d. rn_start (Node d) \<noteq> CommentNode comment_trailing) ?ds"
    by (simp add: list_all_iff)
  from l have "?ds \<noteq> []" by auto
  with th have c2: "cg_End comment_trailing \<le> rangeNode_Pos (Node (hd ?ds))" by blast
  from th have "take (nat (cg_End comment_trailing - 1)) (out_bytes ?r)
      = take (nat (cg_End comment_trailing - 1)) (slice_bytes (exact_slice src_header))"
    by blast
  then have "take (nat (cg_End comment_trailing - 1)) (out_bytes ?r)
      = take (nat (cg_End comment_trailing - 1)) src_header"
    by (simp add: slice_bytes_def exact_slice_def)
  with f have c3: "\<exists>r. Format ?parse insertionSortCmpFunc ''header.go''
             (exact_slice src_header) = Inr r
          \<and> take (nat (cg_End comment_trailing - 1)) (out_bytes r)
            = take (nat (cg_End comment_trailing - 1)) src_header"
    by blast
  from o b c lt bd ins d l c1 c2 c3 show ?thesis by (intro conjI)
qed

section \<open>The buffers of Format\<close>

text \<open>
  Claim C9. \<open>Format\<close> is to leave the bytes of the source buffer unchanged and to return
  a newly allocated buffer, as it does for a file with no declaration. With declarations
  it appends to \<open>src[0:firstDeclStart-1]\<close>, whose capacity is that of the source: on the
  two functions \<open>b\<close>, \<open>a\<close> the rewritten region fits, it is written over the source, and
  the returned slice is the source's backing array.
\<close>

theorem Format_writes_into_src:
  "Format (\<lambda>name bs. Inr file_swap) insertionSortCmpFunc ''swap.go'' (exact_slice src_swap)
     = Inr \<lparr>out_bytes = ''package p'' @ newline @ newline @ ''func a() {}'' @ newline @ newline
                 @ ''func b() {}'' @ newline,
              out_shares_src = True,
              src_after = ''package p'' @ newline @ newline @ ''func a() {}'' @ newline
                 @ newline @ ''func b() {}'' @ newline\<rparr>
   \<and> src_swap = ''package p'' @ newline @ newline @ ''func b() {}'' @ newline @ newline
         @ ''func a() {}'' @ newline
   \<and> Format (\<lambda>name bs. Inr (file_swap\<lparr>file_Decls := []\<rparr>)) insertionSortCmpFunc ''swap.go''
         (exact_slice src_swap)
     = Inr \<lparr>out_bytes = src_swap, out_shares_src = False, src_after = src_swap\<rparr>"
  by code_simp

text \<open>
  Claim C7. \<open>Format\<close> is to be idempotent. On two functions on consecutive lines followed
  by a comment, the rewritten region is one byte longer than the region it replaces; it
  is written in place over the first byte of the comment, and the rest of the file is
  read after that. The result ends in \<open>/ end\<close>, which is no comment any more: the parser
  rejects it, and \<open>Format\<close> of the result is the syntax error, not the result.
\<close>

theorem Format_overwrites_trailing_comment:
  "Format parse_trailing insertionSortCmpFunc ''trailing.go'' (exact_slice src_trailing)
     = Inr \<lparr>out_bytes = ''package p'' @ newline @ ''func a() {}'' @ newline @ newline
                 @ ''func b() {}'' @ newline @ newline @ ''/ end'' @ newline,
              out_shares_src = False,
              src_after = ''package p'' @ newline @ ''func a() {}'' @ newline @ newline
                 @ ''func b() {}'' @ newline @ ''/ end'' @ newline\<rparr>
   \<and> Format parse_trailing insertionSortCmpFunc ''trailing.go''
         (exact_slice (''package p'' @ newline @ ''func a() {}'' @ newline @ newline
                 @ ''func b() {}'' @ newline @ newline @ ''/ end'' @ newline))
     = Inl (ParseError ''expected declaration'')"
  by code_simp

text \<open>
  Claim C6. The declarations read back from the output are to be those of the input,
  none created, dropped or duplicated. On twelve variables on consecutive lines followed
  by a comment of eleven bytes, the rewritten region is eleven bytes longer than the
  region it replaces and is written in place over the comment; the rest of the file, read
  after that, is the end of the rewritten region. The output declares \<open>l\<close> twice,
  thirteen variables for the twelve of the input, and the comment is gone.
\<close>

theorem Format_duplicates_last_declaration:
  "Format (\<lambda>name bs. Inr file_twelve) insertionSortCmpFunc ''twelve.go''
       (exact_slice src_twelve)
     = Inr \<lparr>out_bytes =
                 ''package p'' @ newline @ ''var a int'' @ newline @ newline
                 @ ''var b int'' @ newline @ newline @ ''var c int'' @ newline
                 @ newline @ ''var d int'' @ newline @ newline @ ''var e int''
                 @ newline @ newline @ ''var f int'' @ newline @ newline
                 @ ''var g int'' @ newline @ newline @ ''var h int'' @ newline
                 @ newline @ ''var i int'' @ newline @ newline @ ''var j int''
                 @ newline @ newline @ ''var k int'' @ newline @ newline
                 @ ''var l int'' @ newline @ newline @ ''var l int'' @ newline,
              out_shares_src = False,
              src_after =
                 ''package p'' @ newline @ ''var a int'' @ newline @ newline
                 @ ''var b int'' @ newline @ newline @ ''var c int'' @ newline
                 @ newline @ ''var d int'' @ newline @ newline @ ''var e int''
                 @ newline @ newline @ ''var f int'' @ newline @ newline
                 @ ''var g int'' @ newline @ newline @ ''var h int'' @ newline
                 @ newline @ ''var i int'' @ newline @ newline @ ''var j int''
                 @ newline @ newline @ ''var k int'' @ newline @ newline
                 @ ''var l int'' @ newline\<rparr>"
  by code_simp

end
